theory Spec2Isabelle
  imports Complex_Main "HOL-Library.Char_ord" "HOL-Library.List_Lexorder" "HOL-Library.Sublist"
begin

section \<open>Data model\<close>

text \<open>
  JavaScript numbers are modelled exactly: a finite number is a rational (an integer where
  the source only produces integers), and \<open>NaN\<close> is \<open>None\<close> of an option type. The
  rounding of IEEE doubles in sums and quotients is not modelled; time values and day
  counts are integers far below \<open>2^53\<close>, where doubles are exact.
\<close>

text \<open>
  The \<open>hours\<close> field as the engine sees it after \<open>Number(curr.hours)\<close>: a value that
  converts to a finite number, or one that converts to \<open>NaN\<close> (a missing field, a
  non-numeric string, \<open>NaN\<close> itself).
\<close>

datatype hours_value = Numeric rat | NonNumeric

text \<open>
  Modelled from the spec: \<open>types.ts\<close> (the declaration of \<open>Activity\<close>) is not among the
  sources. The fields are those of section 3 of the specification and of the object built
  in \<open>submitActivity\<close>; \<open>submission\<close> is \<open>Omit<Activity, 'id' | 'timestamp' | 'qualityScore'>\<close>,
  and the field \<open>id\<close> is named \<open>activityId\<close> here.
\<close>

record submission =
  internId :: string
  date :: string
  hours :: hours_value
  category :: string
  description :: string
  proofLink :: string

record activity = submission +
  activityId :: string
  timestamp :: string
  qualityScore :: "rat option"

record eligibility_result =
  isEligible :: bool
  activeDays :: nat
  averageHours :: rat
  maxGapDays :: int
  reasons :: "string list"

record statistics =
  totalActiveDays :: nat
  averageHours :: rat
  currentStreak :: nat
  totalSubmissions :: nat

section \<open>The runtime's \<open>Date\<close>, \<open>Number\<close> and \<open>Set\<close>\<close>

subsection \<open>Calendar arithmetic (ECMA-262, Time Values)\<close>

definition msPerDay :: int where
  "msPerDay = 1000 * 60 * 60 * 24"

definition isLeapYear :: "int \<Rightarrow> bool" where
  "isLeapYear y = ((y mod 4 = 0 \<and> y mod 100 \<noteq> 0) \<or> y mod 400 = 0)"

definition dayFromYear :: "int \<Rightarrow> int" where
  "dayFromYear y =
     365 * (y - 1970) + (y - 1969) div 4 - (y - 1901) div 100 + (y - 1601) div 400"

definition daysInMonth :: "int \<Rightarrow> nat \<Rightarrow> nat" where
  "daysInMonth y m =
     (if m = 2 then (if isLeapYear y then 29 else 28)
      else if m = 4 \<or> m = 6 \<or> m = 9 \<or> m = 11 then 30 else 31)"

text \<open>Days of the year before the first of month \<open>m\<close> (1 to 12).\<close>

definition daysBeforeMonth :: "int \<Rightarrow> nat \<Rightarrow> int" where
  "daysBeforeMonth y m =
     [0, 31, 59, 90, 120, 151, 181, 212, 243, 273, 304, 334] ! (m - 1)
       + (if isLeapYear y \<and> 2 < m then 1 else 0)"

text \<open>\<open>MakeDay\<close>: the day number (days since 1970-01-01) of a calendar date.\<close>

definition makeDay :: "int \<Rightarrow> nat \<Rightarrow> nat \<Rightarrow> int" where
  "makeDay y m d = dayFromYear y + daysBeforeMonth y m + int d - 1"

text \<open>
  \<open>YearFromTime\<close> is the largest year whose first day is not after the given day. The
  year of the mean Gregorian year length (146097 days in 400 years) is at most one off, and
  the first days of its neighbours decide.
\<close>

definition yearFromDay :: "int \<Rightarrow> int" where
  "yearFromDay n =
     (let y = 1970 + (n * 400) div 146097
      in if dayFromYear (y + 1) \<le> n then y + 1 else if dayFromYear y \<le> n then y else y - 1)"

text \<open>\<open>MonthFromTime\<close>, from the day within the year, with months from 1 to 12.\<close>

definition monthFromDay :: "int \<Rightarrow> int \<Rightarrow> nat" where
  "monthFromDay y doy =
     (if doy < daysBeforeMonth y 2 then 1
      else if doy < daysBeforeMonth y 3 then 2
      else if doy < daysBeforeMonth y 4 then 3
      else if doy < daysBeforeMonth y 5 then 4
      else if doy < daysBeforeMonth y 6 then 5
      else if doy < daysBeforeMonth y 7 then 6
      else if doy < daysBeforeMonth y 8 then 7
      else if doy < daysBeforeMonth y 9 then 8
      else if doy < daysBeforeMonth y 10 then 9
      else if doy < daysBeforeMonth y 11 then 10
      else if doy < daysBeforeMonth y 12 then 11
      else 12)"

text \<open>Year, month and day of the month (\<open>DateFromTime\<close>) of a day number.\<close>

definition civilFromDays :: "int \<Rightarrow> int \<times> nat \<times> nat" where
  "civilFromDays n =
     (let y = yearFromDay n;
          doy = n - dayFromYear y;
          m = monthFromDay y doy
      in (y, m, nat (doy - daysBeforeMonth y m + 1)))"

subsection \<open>Parsing a date string\<close>

definition isDigit :: "char \<Rightarrow> bool" where
  "isDigit c = (CHR ''0'' \<le> c \<and> c \<le> CHR ''9'')"

definition digitVal :: "char \<Rightarrow> nat" where
  "digitVal c = of_char c - 48"

text \<open>
  \<open>new Date(s)\<close> for a date string of the data model, the date-only form \<open>YYYY-MM-DD\<close> of
  the ECMAScript date-time string format, which is read as midnight UTC. The model reads
  this form and no other: the date-time, \<open>YYYY-MM\<close>, \<open>YYYY\<close> and expanded-year forms
  that engines also read, and a day that the month does not have (which some engines roll
  over and others refuse), are an Invalid Date here. The model is therefore that of the
  code on dates of the data model only, and every theorem that depends on what a date is
  read as is stated for such dates.
\<close>

definition parseDate :: "string \<Rightarrow> (int \<times> nat \<times> nat) option" where
  "parseDate s =
     (case s of
        [y1, y2, y3, y4, h1, m1, m2, h2, d1, d2] \<Rightarrow>
          (let y = 1000 * digitVal y1 + 100 * digitVal y2 + 10 * digitVal y3 + digitVal y4;
               m = 10 * digitVal m1 + digitVal m2;
               d = 10 * digitVal d1 + digitVal d2
           in if isDigit y1 \<and> isDigit y2 \<and> isDigit y3 \<and> isDigit y4
                 \<and> h1 = CHR ''-'' \<and> isDigit m1 \<and> isDigit m2
                 \<and> h2 = CHR ''-'' \<and> isDigit d1 \<and> isDigit d2
                 \<and> 1 \<le> m \<and> m \<le> 12 \<and> 1 \<le> d \<and> d \<le> daysInMonth (int y) m
              then Some (int y, m, d) else None)
      | _ \<Rightarrow> None)"

text \<open>\<open>new Date(s).getTime()\<close>: milliseconds since the epoch, \<open>None\<close> for \<open>NaN\<close>.\<close>

definition getTime :: "string \<Rightarrow> int option" where
  "getTime s = map_option (\<lambda>(y, m, d). makeDay y m d * msPerDay) (parseDate s)"

subsection \<open>Arithmetic that propagates \<open>NaN\<close>\<close>

definition nanSub :: "int option \<Rightarrow> int option \<Rightarrow> int option" where
  "nanSub a b = (case a of None \<Rightarrow> None | Some x \<Rightarrow> map_option (\<lambda>y. x - y) b)"

text \<open>Division of a time difference by the number of milliseconds in a day.\<close>

definition nanDivDay :: "int option \<Rightarrow> rat option" where
  "nanDivDay a = map_option (\<lambda>x. of_int x / of_int msPerDay) a"

definition mathFloor :: "rat option \<Rightarrow> int option" where
  "mathFloor a = map_option (\<lambda>x. \<lfloor>x\<rfloor>) a"

text \<open>\<open>Math.round\<close> rounds half up: \<open>floor (x + 1/2)\<close>.\<close>

definition mathRound :: "rat option \<Rightarrow> int option" where
  "mathRound a = map_option (\<lambda>x. \<lfloor>x + 1 / 2\<rfloor>) a"

subsection \<open>\<open>Number(v) || 0\<close>\<close>

definition Number :: "hours_value \<Rightarrow> rat option" where
  "Number v = (case v of Numeric h \<Rightarrow> Some h | NonNumeric \<Rightarrow> None)"

text \<open>\<open>x || 0\<close> on a number: \<open>NaN\<close> and zero are falsy.\<close>

definition orZero :: "rat option \<Rightarrow> rat" where
  "orZero x = (case x of None \<Rightarrow> 0 | Some h \<Rightarrow> if h = 0 then 0 else h)"

subsection \<open>\<open>new Set(xs)\<close>\<close>

text \<open>
  A \<open>Set\<close> keeps each value once, in the order of first insertion; it is modelled as the
  list of its elements in that order, so that \<open>size\<close> is \<open>length\<close> and \<open>Array.from\<close> is
  the identity.
\<close>

definition setAdd :: "'a list \<Rightarrow> 'a \<Rightarrow> 'a list" where
  "setAdd s x = (if x \<in> set s then s else s @ [x])"

definition newSet :: "'a list \<Rightarrow> 'a list" where
  "newSet xs = foldl setAdd [] xs"

subsection \<open>Numbers in template strings\<close>

definition digitChar :: "nat \<Rightarrow> char" where
  "digitChar n = char_of (48 + n)"

fun showNat :: "nat \<Rightarrow> string" where
  "showNat n = (if n < 10 then [digitChar n] else showNat (n div 10) @ [digitChar (n mod 10)])"

declare showNat.simps [simp del]

definition showInt :: "int \<Rightarrow> string" where
  "showInt i = (if i < 0 then CHR ''-'' # showNat (nat (- i)) else showNat (nat i))"

text \<open>
  \<open>x.toFixed(1)\<close>: the decimal with one fractional digit nearest to \<open>x\<close>, a tie going to
  the larger magnitude. The model rounds the exact rational, the code the double nearest to
  it (3/20 is printed as 0.1 by the code and as 0.2 here), and from \<open>10^21\<close> on the code
  switches to exponent notation; the digits in the second reason are those of the code only
  where the two agree, and no theorem below states them.
\<close>

definition toFixed1 :: "rat \<Rightarrow> string" where
  "toFixed1 x =
     (let n = nat \<lfloor>\<bar>x\<bar> * 10 + 1 / 2\<rfloor>;
          s = showNat (n div 10) @ ''.'' @ showNat (n mod 10)
      in if x < 0 then CHR ''-'' # s else s)"

subsection \<open>\<open>toISOString\<close>\<close>

definition padNat :: "nat \<Rightarrow> nat \<Rightarrow> string" where
  "padNat w n = replicate (w - length (showNat n)) CHR ''0'' @ showNat n"

text \<open>Years 0 to 9999 are written with four digits, the others with a sign and six.\<close>

definition showYear :: "int \<Rightarrow> string" where
  "showYear y =
     (if 0 \<le> y \<and> y \<le> 9999 then padNat 4 (nat y)
      else (if y < 0 then CHR ''-'' else CHR ''+'') # padNat 6 (nat \<bar>y\<bar>))"

definition isoDate :: "int \<Rightarrow> string" where
  "isoDate n =
     (let (y, m, d) = civilFromDays n
      in showYear y @ ''-'' @ padNat 2 m @ ''-'' @ padNat 2 d)"

definition isoTime :: "nat \<Rightarrow> string" where
  "isoTime ms =
     padNat 2 (ms div 3600000) @ '':'' @ padNat 2 (ms div 60000 mod 60) @ '':''
       @ padNat 2 (ms div 1000 mod 60) @ ''.'' @ padNat 3 (ms mod 1000)"

definition toISOString :: "int \<Rightarrow> string" where
  "toISOString t = isoDate (t div msPerDay) @ ''T'' @ isoTime (nat (t mod msPerDay)) @ ''Z''"

text \<open>\<open>s.split('T')[0]\<close>: the part of \<open>s\<close> before its first \<open>T\<close>.\<close>

definition beforeT :: "string \<Rightarrow> string" where
  "beforeT s = takeWhile (\<lambda>c. c \<noteq> CHR ''T'') s"

subsection \<open>The wall clock\<close>

text \<open>
  \<open>calculateStats\<close> calls \<open>new Date()\<close> twice. What the two calls return, and the offsets
  of the host's time zone that \<open>setDate\<close> and \<open>getDate\<close> use, are the ambient state the
  function reads; the model passes them in a record: \<open>firstNow\<close> and \<open>secondNow\<close> are the
  two time values, \<open>tzaNow\<close> is the offset of local time from UTC at \<open>secondNow\<close>, and
  \<open>tzaYesterday\<close> the offset in force one local day earlier (the two differ only across a
  change of daylight saving time).
\<close>

record clock =
  firstNow :: int
  secondNow :: int
  tzaNow :: int
  tzaYesterday :: int

text \<open>\<open>new Date().toISOString().split('T')[0]\<close>\<close>

definition todayStr :: "clock \<Rightarrow> string" where
  "todayStr clk = beforeT (toISOString (firstNow clk))"

text \<open>
  \<open>yesterday.setDate(yesterday.getDate() - 1)\<close> moves the local time one day back and
  converts it to UTC again.
\<close>

definition setDateBack :: "clock \<Rightarrow> int" where
  "setDateBack clk = (secondNow clk + tzaNow clk - msPerDay) - tzaYesterday clk"

definition yesterdayStr :: "clock \<Rightarrow> string" where
  "yesterdayStr clk = beforeT (toISOString (setDateBack clk))"


section \<open>\<open>utils/logic.ts\<close>\<close>

subsection \<open>calculateEligibility\<close>

text \<open>
  The loop \<open>for (let i = 1; i < sorted.length; i++)\<close> of \<open>calculateEligibility\<close>, with the
  loop variable and \<open>maxGap\<close> as arguments. A comparison with \<open>NaN\<close> is false, so a pair
  with an Invalid Date leaves \<open>maxGap\<close> as it is.
\<close>

function gapLoop :: "activity list \<Rightarrow> nat \<Rightarrow> int \<Rightarrow> int" where
  "gapLoop sortedActs i maxGap =
     (if i < length sortedActs then
        (let prevDate = getTime (date (sortedActs ! (i - 1)));
             currDate = getTime (date (sortedActs ! i));
             diffTime = nanSub currDate prevDate;
             diffDays = map_option (\<lambda>f. f - 1) (mathFloor (nanDivDay diffTime))
         in gapLoop sortedActs (i + 1)
              (case diffDays of
                 None \<Rightarrow> maxGap
               | Some g \<Rightarrow> if g > maxGap then g else maxGap))
      else maxGap)"
  by pat_completeness auto
termination
  by (relation "measure (\<lambda>(sortedActs, i, maxGap). length sortedActs - i)") auto

declare gapLoop.simps [simp del]

text \<open>
  \<open>a.date.localeCompare(b.date)\<close> is modelled as the comparison of the strings by their
  characters. The collation of a locale agrees with it on date strings of the data model
  (digits, the hyphens at the same places) and differs on other strings, so the order of
  the sorted records is that of the code for dates of the data model only.
  \<open>Array.prototype.sort\<close> is stable, as \<open>sort_key\<close> is. The Unicode character of the
  second reason is written as its three UTF-8 bytes.
\<close>

definition calculateEligibility :: "activity list \<Rightarrow> string \<Rightarrow> eligibility_result" where
  "calculateEligibility activities joiningDate =
     (let sortedActs = sort_key date activities;
          uniqueDates = newSet (map date activities);
          activeDays = length uniqueDates;
          totalHours = foldl (\<lambda>acc curr. acc + orZero (Number (hours curr))) 0 activities;
          averageHours = (if activeDays > 0 then totalHours / of_nat activeDays else 0);
          maxGap = (if length sortedActs > 1 then gapLoop sortedActs 1 0 else 0);
          reasons =
            (if activeDays < 60
             then [''Requires 60 active days (Current: '' @ showNat activeDays @ '')''] else [])
            @ (if averageHours < 5 / 2
               then [''Average hours must be ''
                       @ [char_of (226::nat), char_of (137::nat), char_of (165::nat)]
                       @ '' 2.5 (Current: '' @ toFixed1 averageHours @ '')''] else [])
            @ (if maxGap > 3
               then [''Maximum gap exceeded 3 consecutive days (Worst gap: '' @ showInt maxGap
                       @ '' days)''] else [])
      in \<lparr> isEligible = (length reasons = 0 \<and> activeDays > 0),
           activeDays = activeDays,
           averageHours = averageHours,
           maxGapDays = maxGap,
           reasons = reasons \<rparr>)"

subsection \<open>calculateStats\<close>

text \<open>
  The loop \<open>for (let i = 1; i < dateStrs.length; i++)\<close> of the streak, with its
  \<open>break\<close>: the loop variable and \<open>streak\<close> are arguments, and the \<open>break\<close> returns
  the streak counted so far.
\<close>

function streakLoop :: "string list \<Rightarrow> nat \<Rightarrow> nat \<Rightarrow> nat" where
  "streakLoop dateStrs i streak =
     (if i < length dateStrs then
        (let d1 = getTime (dateStrs ! (i - 1));
             d2 = getTime (dateStrs ! i);
             diff = nanDivDay (nanSub d1 d2)
         in if mathRound diff = Some 1 then streakLoop dateStrs (i + 1) (streak + 1)
            else streak)
      else streak)"
  by pat_completeness auto
termination
  by (relation "measure (\<lambda>(dateStrs, i, streak). length dateStrs - i)") auto

declare streakLoop.simps [simp del]

text \<open>
  The source's \<open>calculateStats\<close> has the records as its only parameter; the clock it
  reads is the first argument of the model. \<open>sort()\<close> without a comparator orders strings
  by their code units.
\<close>

definition calculateStats :: "clock \<Rightarrow> activity list \<Rightarrow> statistics" where
  "calculateStats clk activities =
     (if length activities = 0
      then \<lparr> totalActiveDays = 0, averageHours = 0, currentStreak = 0, totalSubmissions = 0 \<rparr>
      else
        (let uniqueDates = newSet (map date activities);
             activeDays = length uniqueDates;
             totalHours = foldl (\<lambda>acc curr. acc + orZero (Number (hours curr))) 0 activities;
             averageHours = (if activeDays > 0 then totalHours / of_nat activeDays else 0);
             dateStrs = rev (sort uniqueDates);
             streak =
               (if length dateStrs > 0 then
                  (if dateStrs ! 0 \<noteq> todayStr clk \<and> dateStrs ! 0 \<noteq> yesterdayStr clk then 0
                   else streakLoop dateStrs 1 1)
                else 0)
         in \<lparr> totalActiveDays = activeDays,
              averageHours = averageHours,
              currentStreak = streak,
              totalSubmissions = length activities \<rparr>))"

section \<open>\<open>services/apiService.ts\<close>\<close>

datatype error = Error string

text \<open>
  What \<open>submitActivity\<close> takes from outside: the records that \<open>fetchAllData\<close> resolves to
  (the sheet's, or the mock data when the sheet cannot be read), the score of the text
  scorer (\<open>None\<close> when the call fails or answers with no text), and the clock read by
  \<open>Date.now()\<close> and by \<open>new Date()\<close>.
\<close>

record api_env =
  fetchedActivities :: "activity list"
  aiScore :: "rat option"
  dateNow :: int
  stampNow :: int

text \<open>
  \<open>getActivities(internId?)\<close>: the filter runs when \<open>internId\<close> is truthy, that is, given
  and not the empty string.
\<close>

definition getActivities :: "api_env \<Rightarrow> string option \<Rightarrow> activity list" where
  "getActivities env internId' =
     (case internId' of
        None \<Rightarrow> fetchedActivities env
      | Some i \<Rightarrow> if i \<noteq> [] then filter (\<lambda>a. internId a = i) (fetchedActivities env)
                  else fetchedActivities env)"

text \<open>
  The POST of the new record to the sheet is attempted after the record is built and its
  failure is swallowed; it does not change what the function returns and is left out.
\<close>

definition submitActivity :: "api_env \<Rightarrow> submission \<Rightarrow> error + activity" where
  "submitActivity env activity =
     (let currentActivities = getActivities env (Some (internId activity));
          alreadySubmitted = find (\<lambda>a. date a = date activity) currentActivities
      in if alreadySubmitted \<noteq> None then Inl (Error ''A record for today already exists.'')
         else
           (let qualityScore = (case aiScore env of
                                  None \<Rightarrow> 5
                                | Some score \<Rightarrow> if score = 0 then 5 else score)
            in Inr \<lparr> internId = internId activity,
                     date = date activity,
                     hours = hours activity,
                     category = category activity,
                     description = description activity,
                     proofLink = proofLink activity,
                     activityId = ''act-'' @ showInt (dateNow env),
                     timestamp = toISOString (stampNow env),
                     qualityScore = Some qualityScore \<rparr>))"

section \<open>The specification's terms\<close>

text \<open>
  The metrics in the specification's words, against which the functions above are compared:
  a value of \<open>hours\<close> that is not a number counts as 0, the total is taken over all
  records, and the active days are the distinct date strings.
\<close>

definition coerceHours :: "hours_value \<Rightarrow> rat" where
  "coerceHours v = (case v of Numeric h \<Rightarrow> h | NonNumeric \<Rightarrow> 0)"

definition sumHours :: "activity list \<Rightarrow> rat" where
  "sumHours activities = (\<Sum>a\<leftarrow>activities. coerceHours (hours a))"

definition distinctDates :: "activity list \<Rightarrow> nat" where
  "distinctDates activities = card (date ` set activities)"

text \<open>A calendar date: a month from 1 to 12 and a day that the month has.\<close>

definition validDate :: "int \<Rightarrow> nat \<Rightarrow> nat \<Rightarrow> bool" where
  "validDate y m d = (1 \<le> m \<and> m \<le> 12 \<and> 1 \<le> d \<and> d \<le> daysInMonth y m)"

text \<open>The calendar day of a date string, as a number of days since 1970-01-01.\<close>

definition dayNumber :: "string \<Rightarrow> int option" where
  "dayNumber s = map_option (\<lambda>(y, m, d). makeDay y m d) (parseDate s)"

text \<open>
  A date of the data model: a string that \<open>parseDate\<close> reads, that is, \<open>YYYY-MM-DD\<close>
  with a day that the month has. On these strings the model of \<open>new Date\<close> and of the two
  sorts is what every engine does; the theorems about gaps and streaks are stated for
  records whose dates are of this form.
\<close>

definition validDateString :: "string \<Rightarrow> bool" where
  "validDateString s = (parseDate s \<noteq> None)"

text \<open>The calendar days of the records, one for each record with a date that is read.\<close>

definition dayNumbers :: "activity list \<Rightarrow> int list" where
  "dayNumbers activities =
     concat (map (\<lambda>a. case dayNumber (date a) of None \<Rightarrow> [] | Some n \<Rightarrow> [n]) activities)"

text \<open>
  The gap of a pair of dates: the days from the earlier to the later, less one. A pair
  with a string that is no date has no gap.
\<close>

definition pairGap :: "string \<Rightarrow> string \<Rightarrow> int option" where
  "pairGap earlier later =
     (case dayNumber earlier of
        None \<Rightarrow> None
      | Some p \<Rightarrow> map_option (\<lambda>c. c - p - 1) (dayNumber later))"

text \<open>The gaps of the adjacent pairs of a list of dates, in order.\<close>

definition gapsOf :: "string list \<Rightarrow> int list" where
  "gapsOf ds =
     concat (map (\<lambda>(p, c). case pairGap p c of None \<Rightarrow> [] | Some g \<Rightarrow> [g]) (zip ds (tl ds)))"

text \<open>
  The same gaps on calendar days: for each adjacent pair of a list of day numbers, the
  days from the first to the second, less one.
\<close>

definition dayGaps :: "int list \<Rightarrow> int list" where
  "dayGaps ns = map (\<lambda>(p, c). c - p - 1) (zip ns (tl ns))"

text \<open>
  The largest gap in the specification's words: sort the records by date, keeping records
  of the same date, and take the maximum of 0 and the gaps of the adjacent pairs.
\<close>

definition specMaxGap :: "activity list \<Rightarrow> int" where
  "specMaxGap activities = Max (set (0 # gapsOf (map date (sort_key date activities))))"





text \<open>The pair that the invariant of one record per intern and day is about.\<close>

definition recordKey :: "'a submission_scheme \<Rightarrow> string \<times> string" where
  "recordKey a = (internId a, date a)"

section \<open>Properties\<close>

subsection \<open>Sets, sums and digits\<close>

lemma set_foldl_setAdd: "set (foldl setAdd s xs) = set s \<union> set xs"
  by (induction xs arbitrary: s) (auto simp: setAdd_def)

lemma distinct_foldl_setAdd: "distinct s \<Longrightarrow> distinct (foldl setAdd s xs)"
  by (induction xs arbitrary: s) (auto simp: setAdd_def)

lemma set_newSet: "set (newSet xs) = set xs"
  by (simp add: newSet_def set_foldl_setAdd)

lemma distinct_newSet: "distinct (newSet xs)"
  by (simp add: newSet_def distinct_foldl_setAdd)

lemma length_newSet: "length (newSet xs) = card (set xs)"
  using distinct_card [OF distinct_newSet, of xs] by (simp add: set_newSet)

lemma length_newSet_le: "length (newSet xs) \<le> length xs"
  by (simp add: length_newSet card_length)

lemma newSet_eq_Nil: "(newSet xs = []) = (xs = [])"
  using set_newSet [of xs] by (metis set_empty)

lemma foldl_add: "foldl (\<lambda>acc curr. acc + f curr) a xs = a + sum_list (map f xs)"
  for a :: rat
  by (induction xs arbitrary: a) (simp_all add: add.assoc)

lemma orZero_Number: "orZero (Number v) = coerceHours v"
  by (simp add: orZero_def Number_def coerceHours_def split: hours_value.splits)

lemma digitChar_simps:
  "digitChar 0 = CHR ''0''" "digitChar 1 = CHR ''1''" "digitChar 2 = CHR ''2''"
  "digitChar 3 = CHR ''3''" "digitChar 4 = CHR ''4''" "digitChar 5 = CHR ''5''"
  "digitChar 6 = CHR ''6''" "digitChar 7 = CHR ''7''" "digitChar 8 = CHR ''8''"
  "digitChar 9 = CHR ''9''" "digitChar (Suc 0) = CHR ''1''"
  by code_simp+

lemma replicate_small:
  "replicate 1 x = [x]" "replicate 2 x = [x, x]" "replicate 3 x = [x, x, x]"
  "replicate 4 x = [x, x, x, x]" "replicate 5 x = [x, x, x, x, x]"
  by (simp_all add: numeral_eq_Suc)

subsection \<open>The calendar\<close>

text \<open>
  The first day of the next year is 365 or 366 days after the first day of a year, so
  \<open>dayFromYear\<close> grows with the year and \<open>makeDay\<close> with the date.
\<close>

lemma div_succ:
  assumes "1 < n"
  shows "((a::int) + 1) div n = a div n + (if (a + 1) mod n = 0 then 1 else 0)"
proof -
  have r: "0 \<le> a mod n" "a mod n < n" using assms by simp_all
  have one: "1 div n = 0" "1 mod n = 1" using assms by simp_all
  have split: "(a + 1) div n = a div n + (a mod n + 1) div n"
    using div_add1_eq [of a 1 n] one by simp
  have md: "(a + 1) mod n = (a mod n + 1) mod n"
    by (simp add: mod_add_left_eq)
  show ?thesis
  proof (cases "a mod n + 1 = n")
    case True
    then show ?thesis using assms split md by simp
  next
    case False
    with r have lt: "a mod n + 1 < n" by simp
    with r have "(a mod n + 1) div n = 0" "(a mod n + 1) mod n = a mod n + 1" by simp_all
    with r split md show ?thesis by simp
  qed
qed

lemma mod_shift: "n dvd k \<Longrightarrow> ((y::int) - k + 1) mod n = 0 \<longleftrightarrow> (y + 1) mod n = 0"
proof -
  assume "n dvd k"
  then have "n dvd (y + 1 - k) \<longleftrightarrow> n dvd (y + 1)" by (simp add: dvd_diff_left_iff)
  moreover have "y - k + 1 = y + 1 - k" by simp
  ultimately have "n dvd (y - k + 1) \<longleftrightarrow> n dvd (y + 1)" by (simp only:)
  then show ?thesis by (simp only: mod_eq_0_iff_dvd)
qed

lemma m100_4: "(y::int) mod 100 = 0 \<Longrightarrow> y mod 4 = 0"
proof -
  assume "y mod 100 = 0"
  then have "100 dvd y" by (simp add: mod_eq_0_iff_dvd)
  moreover have "(4::int) dvd 100" by simp
  ultimately have "4 dvd y" by (rule dvd_trans [rotated])
  then show ?thesis by (simp add: mod_eq_0_iff_dvd)
qed

lemma m400_100: "(y::int) mod 400 = 0 \<Longrightarrow> y mod 100 = 0"
proof -
  assume "y mod 400 = 0"
  then have "400 dvd y" by (simp add: mod_eq_0_iff_dvd)
  moreover have "(100::int) dvd 400" by simp
  ultimately have "100 dvd y" by (rule dvd_trans [rotated])
  then show ?thesis by (simp add: mod_eq_0_iff_dvd)
qed

lemma dayFromYear_step:
  "dayFromYear (y + 1) = dayFromYear y + (if isLeapYear y then 366 else 365)"
proof -
  have a4: "(y + 1 - 1969) div 4 = (y - 1969) div 4 + (if y mod 4 = 0 then 1 else 0)"
  proof -
    have "(y + 1 - 1969) = (y - 1969) + 1" by simp
    moreover have "((y - 1969) + 1) mod 4 = 0 \<longleftrightarrow> y mod 4 = 0"
      using mod_shift [of 4 1968 "y - 1"] by simp
    ultimately show ?thesis using div_succ [of 4 "y - 1969"] by simp
  qed
  have a100: "(y + 1 - 1901) div 100 = (y - 1901) div 100 + (if y mod 100 = 0 then 1 else 0)"
  proof -
    have "(y + 1 - 1901) = (y - 1901) + 1" by simp
    moreover have "((y - 1901) + 1) mod 100 = 0 \<longleftrightarrow> y mod 100 = 0"
      using mod_shift [of 100 1900 "y - 1"] by simp
    ultimately show ?thesis using div_succ [of 100 "y - 1901"] by simp
  qed
  have a400: "(y + 1 - 1601) div 400 = (y - 1601) div 400 + (if y mod 400 = 0 then 1 else 0)"
  proof -
    have "(y + 1 - 1601) = (y - 1601) + 1" by simp
    moreover have "((y - 1601) + 1) mod 400 = 0 \<longleftrightarrow> y mod 400 = 0"
      using mod_shift [of 400 1600 "y - 1"] by simp
    ultimately show ?thesis using div_succ [of 400 "y - 1601"] by simp
  qed
  show ?thesis
    unfolding dayFromYear_def isLeapYear_def a4 a100 a400
    using m100_4 [of y] m400_100 [of y] by auto
qed

lemma dayFromYear_less:
  assumes "y < y'"
  shows "dayFromYear y + (if isLeapYear y then 366 else 365) \<le> dayFromYear y'"
proof -
  from assms have "y + 1 \<le> y'" by simp
  then have "dayFromYear (y + 1) \<le> dayFromYear y'"
  proof (induction y' rule: int_ge_induct)
    case base
    show ?case by simp
  next
    case (step i)
    have "dayFromYear i \<le> dayFromYear (i + 1)" by (simp add: dayFromYear_step)
    with step show ?case by simp
  qed
  then show ?thesis by (simp add: dayFromYear_step)
qed

lemma month_cases:
  "1 \<le> m \<Longrightarrow> m \<le> 12 \<Longrightarrow>
     m = 1 \<or> m = 2 \<or> m = 3 \<or> m = 4 \<or> m = 5 \<or> m = 6 \<or> m = 7 \<or> m = 8 \<or> m = 9
       \<or> m = 10 \<or> m = 11 \<or> m = (12::nat)"
  by arith

lemma within_year:
  assumes "1 \<le> m" "m \<le> 12" "d \<le> daysInMonth y m"
  shows "0 \<le> daysBeforeMonth y m
    \<and> daysBeforeMonth y m + int d \<le> (if isLeapYear y then 366 else 365)"
  using month_cases [OF assms(1,2)] assms(3)
  by (auto simp: daysBeforeMonth_def daysInMonth_def)

lemma daysBeforeMonth_next:
  assumes "1 \<le> m" "m < 12"
  shows "daysBeforeMonth y (Suc m) = daysBeforeMonth y m + int (daysInMonth y m)"
proof -
  from assms have "m \<le> 12" by simp
  from month_cases [OF assms(1) this] assms(2) show ?thesis
    by (auto simp: daysBeforeMonth_def daysInMonth_def)
qed

lemma daysBeforeMonth_mono:
  assumes "1 \<le> m" "m \<le> m'" "m' \<le> 12"
  shows "daysBeforeMonth y m \<le> daysBeforeMonth y m'"
  using assms(2,3)
proof (induction m' rule: dec_induct)
  case base
  show ?case by simp
next
  case (step n)
  with assms(1) have "daysBeforeMonth y (Suc n) = daysBeforeMonth y n + int (daysInMonth y n)"
    by (intro daysBeforeMonth_next) simp_all
  with step show ?case by simp
qed

lemma month_less:
  assumes "1 \<le> m" "m < m'" "m' \<le> 12" "d \<le> daysInMonth y m" "1 \<le> d'"
  shows "daysBeforeMonth y m + int d < daysBeforeMonth y m' + int d'"
proof -
  from assms have "daysBeforeMonth y (Suc m) = daysBeforeMonth y m + int (daysInMonth y m)"
    by (intro daysBeforeMonth_next) simp_all
  moreover from assms have "daysBeforeMonth y (Suc m) \<le> daysBeforeMonth y m'"
    by (intro daysBeforeMonth_mono) simp_all
  ultimately show ?thesis using assms(4,5) by simp
qed

lemma makeDay_less:
  assumes v: "validDate y m d" "validDate y' m' d'"
    and lex: "y < y' \<or> (y = y' \<and> (m < m' \<or> (m = m' \<and> d < d')))"
  shows "makeDay y m d < makeDay y' m' d'"
proof -
  from lex consider "y < y'" | "y = y'" "m < m'" | "y = y'" "m = m'" "d < d'" by blast
  then show ?thesis
  proof cases
    case 1
    from v(1) have "daysBeforeMonth y m + int d \<le> (if isLeapYear y then 366 else 365)"
      using within_year [of m d y] by (simp add: validDate_def)
    moreover from v(2) have "0 \<le> daysBeforeMonth y' m'" "1 \<le> d'"
      using within_year [of m' d' y'] by (simp_all add: validDate_def)
    moreover note dayFromYear_less [OF 1]
    ultimately show ?thesis by (simp add: makeDay_def split: if_splits)
  next
    case 2
    with v have "daysBeforeMonth y m + int d < daysBeforeMonth y m' + int d'"
      by (intro month_less) (simp_all add: validDate_def)
    with 2 show ?thesis by (simp add: makeDay_def)
  next
    case 3
    then show ?thesis by (simp add: makeDay_def)
  qed
qed

subsection \<open>Date strings and their order\<close>

text \<open>
  Two date strings that \<open>parseDate\<close> reads are ordered as strings the way their
  dates are ordered in time: the sort by string is the sort by date.
\<close>

lemma isDigit_iff: "isDigit c = (48 \<le> (of_char c :: nat) \<and> (of_char c :: nat) \<le> 57)"
  by (simp add: isDigit_def less_eq_char_def)

lemma digit_less: "isDigit a \<Longrightarrow> isDigit b \<Longrightarrow> (a < b) = (digitVal a < digitVal b)"
  by (auto simp: isDigit_iff digitVal_def less_char_def)

lemma digit_eq: "isDigit a \<Longrightarrow> isDigit b \<Longrightarrow> (a = b) = (digitVal a = digitVal b)"
proof -
  assume "isDigit a" "isDigit b"
  then have "48 \<le> (of_char a :: nat)" "48 \<le> (of_char b :: nat)"
    by (simp_all add: isDigit_iff)
  then have "((of_char a :: nat) - 48 = of_char b - 48) = ((of_char a :: nat) = of_char b)"
    by arith
  also have "\<dots> = (a = b)" by simp
  finally show ?thesis by (simp add: digitVal_def)
qed

lemma digit_le9: "isDigit a \<Longrightarrow> digitVal a \<le> 9"
  by (auto simp: isDigit_iff digitVal_def)

lemma parseDate_SomeD:
  assumes "parseDate s = Some (y, m, d)"
  shows "\<exists>y1 y2 y3 y4 m1 m2 d1 d2.
     s = [y1, y2, y3, y4, CHR ''-'', m1, m2, CHR ''-'', d1, d2]
     \<and> isDigit y1 \<and> isDigit y2 \<and> isDigit y3 \<and> isDigit y4
     \<and> isDigit m1 \<and> isDigit m2 \<and> isDigit d1 \<and> isDigit d2
     \<and> y = int (1000 * digitVal y1 + 100 * digitVal y2 + 10 * digitVal y3 + digitVal y4)
     \<and> m = 10 * digitVal m1 + digitVal m2
     \<and> d = 10 * digitVal d1 + digitVal d2
     \<and> validDate y m d"
  using assms unfolding parseDate_def validDate_def Let_def
  by (simp split: list.splits if_splits)

lemma lex2_less:
  "b \<le> 9 \<Longrightarrow> b' \<le> 9 \<Longrightarrow> (10 * a + b < 10 * a' + b') = (a < a' \<or> a = a' \<and> b < b')"
  for a b a' b' :: nat
  by (cases a a' rule: linorder_cases) auto

lemma lex2_eq:
  "b \<le> 9 \<Longrightarrow> b' \<le> 9 \<Longrightarrow> (10 * a + b = 10 * a' + b') = (a = a' \<and> b = b')"
  for a b a' b' :: nat
  by (cases a a' rule: linorder_cases) auto

lemma lex4_less:
  fixes a b c e a' b' c' e' :: nat
  assumes "b \<le> 9" "b' \<le> 9" "c \<le> 9" "c' \<le> 9" "e \<le> 9" "e' \<le> 9"
  shows "(1000 * a + 100 * b + 10 * c + e < 1000 * a' + 100 * b' + 10 * c' + e')
     = (a < a' \<or> a = a' \<and> (b < b' \<or> b = b' \<and> (c < c' \<or> c = c' \<and> e < e')))"
proof -
  have "1000 * a + 100 * b + 10 * c + e = 10 * (10 * (10 * a + b) + c) + e"
    "1000 * a' + 100 * b' + 10 * c' + e' = 10 * (10 * (10 * a' + b') + c') + e'"
    by simp_all
  then have "(1000 * a + 100 * b + 10 * c + e < 1000 * a' + 100 * b' + 10 * c' + e')
    = (((a < a' \<or> a = a' \<and> b < b') \<or> (a = a' \<and> b = b') \<and> c < c') \<or>
         ((a = a' \<and> b = b') \<and> c = c') \<and> e < e')"
    by (simp only: lex2_less [OF assms(5,6)] lex2_less [OF assms(3,4)] lex2_less [OF assms(1,2)]
        lex2_eq [OF assms(3,4)] lex2_eq [OF assms(1,2)])
  also have "\<dots> = (a < a' \<or> a = a' \<and> (b < b' \<or> b = b' \<and> (c < c' \<or> c = c' \<and> e < e')))"
    by blast
  finally show ?thesis .
qed

lemma lex4_eq:
  fixes a b c e a' b' c' e' :: nat
  assumes "b \<le> 9" "b' \<le> 9" "c \<le> 9" "c' \<le> 9" "e \<le> 9" "e' \<le> 9"
  shows "(1000 * a + 100 * b + 10 * c + e = 1000 * a' + 100 * b' + 10 * c' + e')
     = (a = a' \<and> b = b' \<and> c = c' \<and> e = e')"
proof -
  have "1000 * a + 100 * b + 10 * c + e = 10 * (10 * (10 * a + b) + c) + e"
    "1000 * a' + 100 * b' + 10 * c' + e' = 10 * (10 * (10 * a' + b') + c') + e'"
    by simp_all
  then show ?thesis
    by (simp only: lex2_eq [OF assms(5,6)] lex2_eq [OF assms(3,4)] lex2_eq [OF assms(1,2)] conj_assoc)
qed

lemma parse_string_less:
  assumes p: "parseDate s = Some (y, m, d)" and p': "parseDate s' = Some (y', m', d')"
    and less: "s < s'"
  shows "y < y' \<or> (y = y' \<and> (m < m' \<or> (m = m' \<and> d < d')))"
proof -
  from parseDate_SomeD [OF p] obtain y1 y2 y3 y4 m1 m2 d1 d2 where
    s: "s = [y1, y2, y3, y4, CHR ''-'', m1, m2, CHR ''-'', d1, d2]"
    and dg: "isDigit y1" "isDigit y2" "isDigit y3" "isDigit y4"
      "isDigit m1" "isDigit m2" "isDigit d1" "isDigit d2"
    and y: "y = int (1000 * digitVal y1 + 100 * digitVal y2 + 10 * digitVal y3 + digitVal y4)"
    and m: "m = 10 * digitVal m1 + digitVal m2"
    and d: "d = 10 * digitVal d1 + digitVal d2"
    by blast
  from parseDate_SomeD [OF p'] obtain z1 z2 z3 z4 n1 n2 e1 e2 where
    s': "s' = [z1, z2, z3, z4, CHR ''-'', n1, n2, CHR ''-'', e1, e2]"
    and dg': "isDigit z1" "isDigit z2" "isDigit z3" "isDigit z4"
      "isDigit n1" "isDigit n2" "isDigit e1" "isDigit e2"
    and y': "y' = int (1000 * digitVal z1 + 100 * digitVal z2 + 10 * digitVal z3 + digitVal z4)"
    and m': "m' = 10 * digitVal n1 + digitVal n2"
    and d': "d' = 10 * digitVal e1 + digitVal e2"
    by blast
  note b = dg [THEN digit_le9] dg' [THEN digit_le9]
  have yl: "(y < y') = (digitVal y1 < digitVal z1 \<or> digitVal y1 = digitVal z1 \<and>
      (digitVal y2 < digitVal z2 \<or> digitVal y2 = digitVal z2 \<and>
      (digitVal y3 < digitVal z3 \<or> digitVal y3 = digitVal z3 \<and> digitVal y4 < digitVal z4)))"
    unfolding y y' of_nat_less_iff by (rule lex4_less) (rule b)+
  have ye: "(y = y') = (digitVal y1 = digitVal z1 \<and> digitVal y2 = digitVal z2 \<and>
      digitVal y3 = digitVal z3 \<and> digitVal y4 = digitVal z4)"
    unfolding y y' of_nat_eq_iff by (rule lex4_eq) (rule b)+
  have ml: "(m < m') = (digitVal m1 < digitVal n1 \<or> digitVal m1 = digitVal n1 \<and> digitVal m2 < digitVal n2)"
    unfolding m m' by (rule lex2_less) (rule b)+
  have me: "(m = m') = (digitVal m1 = digitVal n1 \<and> digitVal m2 = digitVal n2)"
    unfolding m m' by (rule lex2_eq) (rule b)+
  have dl: "(d < d') = (digitVal d1 < digitVal e1 \<or> digitVal d1 = digitVal e1 \<and> digitVal d2 < digitVal e2)"
    unfolding d d' by (rule lex2_less) (rule b)+
  from less have
    "y1 < z1 \<or> y1 = z1 \<and> (y2 < z2 \<or> y2 = z2 \<and> (y3 < z3 \<or> y3 = z3 \<and> (y4 < z4 \<or> y4 = z4 \<and>
      (m1 < n1 \<or> m1 = n1 \<and> (m2 < n2 \<or> m2 = n2 \<and> (d1 < e1 \<or> d1 = e1 \<and> d2 < e2))))))"
    unfolding s s' by simp
  then have
    "digitVal y1 < digitVal z1 \<or> digitVal y1 = digitVal z1 \<and>
      (digitVal y2 < digitVal z2 \<or> digitVal y2 = digitVal z2 \<and>
      (digitVal y3 < digitVal z3 \<or> digitVal y3 = digitVal z3 \<and>
      (digitVal y4 < digitVal z4 \<or> digitVal y4 = digitVal z4 \<and>
      (digitVal m1 < digitVal n1 \<or> digitVal m1 = digitVal n1 \<and>
      (digitVal m2 < digitVal n2 \<or> digitVal m2 = digitVal n2 \<and>
      (digitVal d1 < digitVal e1 \<or> digitVal d1 = digitVal e1 \<and> digitVal d2 < digitVal e2))))))"
    by (simp only: digit_less [OF dg(1) dg'(1)] digit_less [OF dg(2) dg'(2)]
        digit_less [OF dg(3) dg'(3)] digit_less [OF dg(4) dg'(4)]
        digit_less [OF dg(5) dg'(5)] digit_less [OF dg(6) dg'(6)]
        digit_less [OF dg(7) dg'(7)] digit_less [OF dg(8) dg'(8)]
        digit_eq [OF dg(1) dg'(1)] digit_eq [OF dg(2) dg'(2)]
        digit_eq [OF dg(3) dg'(3)] digit_eq [OF dg(4) dg'(4)]
        digit_eq [OF dg(5) dg'(5)] digit_eq [OF dg(6) dg'(6)]
        digit_eq [OF dg(7) dg'(7)])
  then show ?thesis
    unfolding yl ye ml me dl by blast
qed

lemma map_insort_key: "map f (insort_key f x xs) = insort (f x) (map f xs)"
  by (induction xs) simp_all

lemma map_sort_key: "map f (sort_key f xs) = sort (map f xs)"
  by (induction xs) (simp_all add: map_insort_key)

lemma parseDate_valid: "parseDate s = Some (y, m, d) \<Longrightarrow> validDate y m d"
  using parseDate_SomeD by blast

lemma dayNumber_string_less:
  assumes "dayNumber s = Some a" "dayNumber s' = Some b" "s < s'"
  shows "a < b"
proof -
  from assms(1) obtain y m d where p: "parseDate s = Some (y, m, d)" and a: "a = makeDay y m d"
    by (auto simp: dayNumber_def)
  from assms(2) obtain y' m' d' where p': "parseDate s' = Some (y', m', d')"
    and b: "b = makeDay y' m' d'"
    by (auto simp: dayNumber_def)
  from parse_string_less [OF p p' assms(3)] parseDate_valid [OF p] parseDate_valid [OF p']
  show ?thesis unfolding a b by (intro makeDay_less)
qed

lemma dayNumber_less_string:
  assumes "dayNumber s = Some a" "dayNumber s' = Some b" "a < b"
  shows "s < s'"
proof (cases s s' rule: linorder_cases)
  case less
  then show ?thesis .
next
  case equal
  with assms show ?thesis by simp
next
  case greater
  from dayNumber_string_less [OF assms(2,1) greater] assms(3) show ?thesis by simp
qed

text \<open>
  On dates of the data model the order of the strings is the order of the calendar days:
  sorting records by their date strings sorts them by day, and the distinct date strings
  in descending order are the distinct days in descending order.
\<close>

lemma validDateString_dayNumber: "validDateString s = (\<exists>n. dayNumber s = Some n)"
  by (auto simp: validDateString_def dayNumber_def)

lemma dayNumber_string_le:
  assumes "dayNumber s = Some a" "dayNumber s' = Some b" "s \<le> s'"
  shows "a \<le> b"
proof (cases "s = s'")
  case True
  with assms show ?thesis by simp
next
  case False
  with assms(3) have "s < s'" by simp
  from dayNumber_string_less [OF assms(1,2) this] show ?thesis by simp
qed

lemma days_of_valid:
  assumes "\<forall>s \<in> set xs. validDateString s"
  shows "map dayNumber xs = map Some (map (\<lambda>s. case dayNumber s of None \<Rightarrow> 0 | Some n \<Rightarrow> n) xs)"
  using assms by (induction xs) (auto simp: validDateString_dayNumber)

lemma dayNumbers_valid:
  assumes "\<forall>a \<in> set activities. validDateString (date a)"
  shows "dayNumbers activities
    = map (\<lambda>s. case dayNumber s of None \<Rightarrow> 0 | Some n \<Rightarrow> n) (map date activities)"
  using assms unfolding dayNumbers_def
  by (induction activities) (auto simp: validDateString_dayNumber)

lemma map_day_insort:
  assumes "validDateString x" "\<forall>s \<in> set ys. validDateString s"
  shows "map (\<lambda>s. case dayNumber s of None \<Rightarrow> 0 | Some n \<Rightarrow> n) (insort x ys)
    = insort (case dayNumber x of None \<Rightarrow> 0 | Some n \<Rightarrow> n)
        (map (\<lambda>s. case dayNumber s of None \<Rightarrow> 0 | Some n \<Rightarrow> n) ys)"
  using assms(2)
proof (induction ys)
  case Nil
  show ?case by simp
next
  case (Cons y ys)
  from assms(1) Cons.prems obtain a b where ab: "dayNumber x = Some a" "dayNumber y = Some b"
    by (auto simp: validDateString_dayNumber)
  show ?case
  proof (cases "x \<le> y")
    case True
    from dayNumber_string_le [OF ab True] True ab show ?thesis by simp
  next
    case False
    then have "y < x" by simp
    from dayNumber_string_less [OF ab(2,1) this] False ab Cons show ?thesis by simp
  qed
qed

lemma map_day_sort:
  assumes "\<forall>s \<in> set xs. validDateString s"
  shows "map (\<lambda>s. case dayNumber s of None \<Rightarrow> 0 | Some n \<Rightarrow> n) (sort xs)
    = sort (map (\<lambda>s. case dayNumber s of None \<Rightarrow> 0 | Some n \<Rightarrow> n) xs)"
  using assms by (induction xs) (simp_all add: map_day_insort)

lemma sorted_records_by_day:
  assumes v: "\<forall>a \<in> set activities. validDateString (date a)"
  shows "map (\<lambda>a. dayNumber (date a)) (sort_key date activities)
    = map Some (sort (dayNumbers activities))"
proof -
  let ?g = "\<lambda>s. case dayNumber s of None \<Rightarrow> (0::int) | Some n \<Rightarrow> n"
  let ?xs = "map date activities"
  have v': "\<forall>s \<in> set ?xs. validDateString s" using v by simp
  then have vs: "\<forall>s \<in> set (sort ?xs). validDateString s" by simp
  have "map ?g (sort ?xs) = sort (dayNumbers activities)"
    by (simp only: dayNumbers_valid [OF v] map_day_sort [OF v'])
  moreover have "map (\<lambda>a. dayNumber (date a)) (sort_key date activities)
      = map dayNumber (sort ?xs)"
  proof -
    have "map (\<lambda>a. dayNumber (date a)) (sort_key date activities)
        = map dayNumber (map date (sort_key date activities))"
      by (simp add: comp_def)
    then show ?thesis by (simp only: map_sort_key)
  qed
  ultimately show ?thesis using days_of_valid [OF vs] by simp
qed



lemma digitVal_simps:
  "digitVal CHR ''0'' = 0" "digitVal CHR ''1'' = 1" "digitVal CHR ''2'' = 2"
  "digitVal CHR ''3'' = 3" "digitVal CHR ''4'' = 4" "digitVal CHR ''5'' = 5"
  "digitVal CHR ''6'' = 6" "digitVal CHR ''7'' = 7" "digitVal CHR ''8'' = 8"
  "digitVal CHR ''9'' = 9"
  by (simp_all add: digitVal_def)

lemma isDigit_simps:
  "isDigit CHR ''0''" "isDigit CHR ''1''" "isDigit CHR ''2''" "isDigit CHR ''3''"
  "isDigit CHR ''4''" "isDigit CHR ''5''" "isDigit CHR ''6''" "isDigit CHR ''7''"
  "isDigit CHR ''8''" "isDigit CHR ''9''"
  by (simp_all add: isDigit_def)

lemma parseDate_examples:
  "parseDate ''2024-01-01'' = Some (2024, 1, 1)"
  "parseDate ''2024-01-02'' = Some (2024, 1, 2)"
  "parseDate ''2024-01-05'' = Some (2024, 1, 5)"
  by (simp_all add: parseDate_def digitVal_simps isDigit_simps daysInMonth_def)

lemma dayFromYear_2024: "dayFromYear 2024 = 19723"
  by (simp add: dayFromYear_def)

lemma dayNumber_examples:
  "dayNumber ''2024-01-01'' = Some 19723"
  "dayNumber ''2024-01-02'' = Some 19724"
  "dayNumber ''2024-01-05'' = Some 19727"
  by (simp_all add: dayNumber_def parseDate_examples makeDay_def dayFromYear_2024
      daysBeforeMonth_def)

subsection \<open>The day strings of the clock\<close>

text \<open>
  A rendered number holds no \<open>T\<close>, so the part of \<open>toISOString\<close> before the first
  \<open>T\<close> is the date.
\<close>

lemma of_char_digitChar: "n < 10 \<Longrightarrow> of_char (digitChar n) = 48 + n"
  by (simp add: digitChar_def)

lemma digitChar_not_T: "n < 10 \<Longrightarrow> digitChar n \<noteq> CHR ''T''"
proof
  assume "n < 10" "digitChar n = CHR ''T''"
  then have "(of_char (digitChar n) :: nat) = of_char CHR ''T''" by simp
  with \<open>n < 10\<close> show False by (simp add: of_char_digitChar)
qed

lemma showNat_no_T: "CHR ''T'' \<notin> set (showNat n)"
proof (induction n rule: showNat.induct)
  case (1 n)
  show ?case
  proof (cases "n < 10")
    case True
    then show ?thesis using digitChar_not_T [of n] by (subst showNat.simps) auto
  next
    case False
    then have "n mod 10 < 10" by simp
    with False "1.IH" digitChar_not_T [of "n mod 10"] show ?thesis
      by (subst showNat.simps) auto
  qed
qed

lemma padNat_no_T: "CHR ''T'' \<notin> set (padNat w n)"
  using showNat_no_T by (auto simp: padNat_def)

lemma showYear_no_T: "CHR ''T'' \<notin> set (showYear y)"
  using padNat_no_T by (auto simp: showYear_def)

lemma isoDate_no_T: "CHR ''T'' \<notin> set (isoDate n)"
  using padNat_no_T showYear_no_T by (auto simp: isoDate_def split: prod.splits)

lemma beforeT_toISOString: "beforeT (toISOString t) = isoDate (t div msPerDay)"
proof -
  have "\<forall>c \<in> set (isoDate (t div msPerDay)). c \<noteq> CHR ''T''"
    using isoDate_no_T by auto
  then show ?thesis
    unfolding beforeT_def toISOString_def
    by (simp add: takeWhile_append2)
qed

lemma todayStr_isoDate: "todayStr clk = isoDate (firstNow clk div msPerDay)"
  by (simp add: todayStr_def beforeT_toISOString)

lemma yesterdayStr_isoDate: "yesterdayStr clk = isoDate (setDateBack clk div msPerDay)"
  by (simp add: yesterdayStr_def beforeT_toISOString)

lemma isoDate_examples:
  "isoDate 19723 = ''2024-01-01''" "isoDate 19724 = ''2024-01-02''"
  "isoDate 19725 = ''2024-01-03''" "isoDate 19726 = ''2024-01-04''"
  unfolding isoDate_def civilFromDays_def yearFromDay_def Let_def
  by (simp_all add: dayFromYear_def monthFromDay_def daysBeforeMonth_def padNat_def
      showYear_def showNat.simps digitChar_simps replicate_small)

subsection \<open>Formatting a day and reading it back\<close>

text \<open>
  \<open>civilFromDays\<close> and \<open>makeDay\<close> are inverse to each other, and so are \<open>isoDate\<close>
  and \<open>dayNumber\<close> on the years 0 to 9999: the date that \<open>toISOString\<close> writes for a
  day is read back by \<open>new Date\<close> as that day.
\<close>

lemma div_bounds:
  fixes x d :: int
  assumes "0 < d"
  shows "d * (x div d) \<le> x" "x < d * (x div d) + d"
proof -
  have "x = d * (x div d) + x mod d" by simp
  moreover have "0 \<le> x mod d" "x mod d < d" using assms by simp_all
  ultimately show "d * (x div d) \<le> x" "x < d * (x div d) + d" by linarith+
qed

lemma year_lower: "dayFromYear (1970 + (n * 400) div 146097 - 1) \<le> n"
proof -
  define k where "k = (n * 400) div 146097"
  define a where "a = k div 4"
  define b where "b = (k + 68) div 100"
  define c where "c = (k + 368) div 400"
  have k: "146097 * k \<le> n * 400" unfolding k_def by (rule div_bounds) simp
  have a: "4 * a \<le> k" unfolding a_def by (rule div_bounds) simp
  have b: "k + 68 < 100 * b + 100" unfolding b_def by (rule div_bounds) simp
  have c: "400 * c \<le> k + 368" unfolding c_def by (rule div_bounds) simp
  have "dayFromYear (1970 + k - 1) = 365 * (k - 1) + a - b + c"
    by (simp add: dayFromYear_def a_def b_def c_def add.commute)
  also have "\<dots> \<le> n"
  proof -
    have "400 * (365 * (k - 1) + a - b + c) \<le> n * 400"
      using k a b c by (simp add: algebra_simps)
    then show ?thesis by simp
  qed
  finally show ?thesis unfolding k_def .
qed

lemma year_upper: "n < dayFromYear (1970 + (n * 400) div 146097 + 2)"
proof -
  define k where "k = (n * 400) div 146097"
  define a where "a = (k + 3) div 4"
  define b where "b = (k + 71) div 100"
  define c where "c = (k + 371) div 400"
  have k: "n * 400 < 146097 * k + 146097" unfolding k_def by (rule div_bounds) simp
  have a: "k + 3 < 4 * a + 4" unfolding a_def by (rule div_bounds) simp
  have b: "100 * b \<le> k + 71" unfolding b_def by (rule div_bounds) simp
  have c: "k + 371 < 400 * c + 400" unfolding c_def by (rule div_bounds) simp
  have "dayFromYear (1970 + k + 2) = 365 * (k + 2) + a - b + c"
    by (simp add: dayFromYear_def a_def b_def c_def add.commute)
  moreover have "n < 365 * (k + 2) + a - b + c"
  proof -
    have "n * 400 < 400 * (365 * (k + 2) + a - b + c)"
      using k a b c by (simp add: algebra_simps)
    then show ?thesis by simp
  qed
  ultimately show ?thesis unfolding k_def by simp
qed

lemma yearFromDay_spec:
  "dayFromYear (yearFromDay n) \<le> n \<and> n < dayFromYear (yearFromDay n + 1)"
proof -
  let ?y = "1970 + (n * 400) div 146097"
  have lo: "dayFromYear (?y - 1) \<le> n" by (rule year_lower)
  have "?y + 1 + 1 = ?y + 2" by simp
  then have hi: "n < dayFromYear (?y + 1 + 1)" using year_upper [of n] by simp
  have "?y - 1 + 1 = ?y" by simp
  show ?thesis
    unfolding yearFromDay_def Let_def using lo hi by (simp add: \<open>?y - 1 + 1 = ?y\<close>)
qed

lemma monthFromDay_spec:
  assumes "0 \<le> doy" "doy < (if isLeapYear y then 366 else 365)"
  shows "1 \<le> monthFromDay y doy \<and> monthFromDay y doy \<le> 12
    \<and> daysBeforeMonth y (monthFromDay y doy) \<le> doy
    \<and> doy < daysBeforeMonth y (monthFromDay y doy) + int (daysInMonth y (monthFromDay y doy))"
  using assms
  by (cases "isLeapYear y") (simp_all add: monthFromDay_def daysBeforeMonth_def daysInMonth_def)

lemma civilFromDays_makeDay:
  assumes "civilFromDays n = (y, m, d)"
  shows "validDate y m d \<and> makeDay y m d = n"
proof -
  from assms have y: "y = yearFromDay n"
    and m: "m = monthFromDay y (n - dayFromYear y)"
    and d: "d = nat (n - dayFromYear y - daysBeforeMonth y m + 1)"
    by (auto simp: civilFromDays_def Let_def)
  let ?doy = "n - dayFromYear y"
  from yearFromDay_spec [of n] have "0 \<le> ?doy" "?doy < (if isLeapYear y then 366 else 365)"
    unfolding y by (simp_all add: dayFromYear_step)
  from monthFromDay_spec [OF this] have
    "1 \<le> m" "m \<le> 12" "daysBeforeMonth y m \<le> ?doy"
    "?doy < daysBeforeMonth y m + int (daysInMonth y m)"
    unfolding m by simp_all
  then show ?thesis
    unfolding d validDate_def makeDay_def by (auto simp: nat_le_iff le_nat_iff)
qed

lemma makeDay_inj:
  assumes "validDate y m d" "validDate y' m' d'" "makeDay y m d = makeDay y' m' d'"
  shows "y = y' \<and> m = m' \<and> d = d'"
proof (rule ccontr)
  assume "\<not> (y = y' \<and> m = m' \<and> d = d')"
  then have "(y < y' \<or> (y = y' \<and> (m < m' \<or> (m = m' \<and> d < d'))))
      \<or> (y' < y \<or> (y' = y \<and> (m' < m \<or> (m' = m \<and> d' < d))))"
    by auto
  then show False
  proof
    assume "y < y' \<or> (y = y' \<and> (m < m' \<or> (m = m' \<and> d < d')))"
    from makeDay_less [OF assms(1,2) this] assms(3) show False by simp
  next
    assume "y' < y \<or> (y' = y \<and> (m' < m \<or> (m' = m \<and> d' < d)))"
    from makeDay_less [OF assms(2,1) this] assms(3) show False by simp
  qed
qed

lemma civilFromDays_of_makeDay:
  assumes "validDate y m d"
  shows "civilFromDays (makeDay y m d) = (y, m, d)"
proof -
  obtain y' m' d' where c: "civilFromDays (makeDay y m d) = (y', m', d')"
    by (cases "civilFromDays (makeDay y m d)") auto
  from civilFromDays_makeDay [OF c] have "validDate y' m' d'" "makeDay y' m' d' = makeDay y m d"
    by simp_all
  from makeDay_inj [OF this(1) assms this(2)] c show ?thesis by simp
qed

lemma digitVal_digitChar: "k < 10 \<Longrightarrow> digitVal (digitChar k) = k"
  by (simp add: digitVal_def of_char_digitChar)

lemma isDigit_digitChar: "k < 10 \<Longrightarrow> isDigit (digitChar k)"
  by (simp add: isDigit_iff of_char_digitChar)

lemma showNat_1: "n < 10 \<Longrightarrow> showNat n = [digitChar n]"
  by (subst showNat.simps) simp

lemma showNat_2: "10 \<le> n \<Longrightarrow> n < 100 \<Longrightarrow> showNat n = [digitChar (n div 10), digitChar (n mod 10)]"
  by (subst showNat.simps) (simp add: showNat_1)

lemma showNat_3:
  "100 \<le> n \<Longrightarrow> n < 1000 \<Longrightarrow>
     showNat n = [digitChar (n div 100), digitChar (n div 10 mod 10), digitChar (n mod 10)]"
  by (subst showNat.simps) (simp add: showNat_2 div_mult2_eq [symmetric])

lemma showNat_4:
  "1000 \<le> n \<Longrightarrow> n < 10000 \<Longrightarrow>
     showNat n = [digitChar (n div 1000), digitChar (n div 100 mod 10),
       digitChar (n div 10 mod 10), digitChar (n mod 10)]"
  by (subst showNat.simps) (simp add: showNat_3 div_mult2_eq [symmetric])

lemma padNat_2:
  assumes "n < 100"
  shows "padNat 2 n = [digitChar (n div 10), digitChar (n mod 10)]"
proof (cases "n < 10")
  case True
  then show ?thesis by (simp add: padNat_def showNat_1 replicate_small digitChar_simps)
next
  case False
  with assms show ?thesis by (simp add: padNat_def showNat_2)
qed

lemma padNat_4:
  assumes "n < 10000"
  shows "padNat 4 n = [digitChar (n div 1000), digitChar (n div 100 mod 10),
       digitChar (n div 10 mod 10), digitChar (n mod 10)]"
proof -
  consider "n < 10" | "10 \<le> n" "n < 100" | "100 \<le> n" "n < 1000" | "1000 \<le> n"
    by linarith
  then show ?thesis
  proof cases
    case 1
    then show ?thesis by (simp add: padNat_def showNat_1 replicate_small digitChar_simps)
  next
    case 2
    then show ?thesis by (simp add: padNat_def showNat_2 replicate_small digitChar_simps)
  next
    case 3
    then show ?thesis by (simp add: padNat_def showNat_3 replicate_small digitChar_simps)
  next
    case 4
    with assms show ?thesis by (simp add: padNat_def showNat_4)
  qed
qed

lemma digits_2: "10 * (n div 10) + n mod 10 = n" for n :: nat
  by simp

lemma digits_4:
  "1000 * (n div 1000) + 100 * (n div 100 mod 10) + 10 * (n div 10 mod 10) + n mod 10 = n"
  for n :: nat
proof -
  have "n div 100 mod 10 + 10 * (n div 1000) = n div 100"
    using div_mult2_eq [of n 100 10] by simp
  moreover have "n div 10 mod 10 + 10 * (n div 100) = n div 10"
    using div_mult2_eq [of n 10 10] by simp
  moreover have "n mod 10 + 10 * (n div 10) = n" by simp
  ultimately show ?thesis by linarith
qed

lemma daysInMonth_le: "daysInMonth y m \<le> 31"
  by (simp add: daysInMonth_def)

lemma parseDate_digits:
  assumes "y < 10000" "m < 100" "d < 100"
  shows "parseDate
      (padNat 4 y @ ''-'' @ padNat 2 m @ ''-'' @ padNat 2 d)
    = (if 1 \<le> m \<and> m \<le> 12 \<and> 1 \<le> d \<and> d \<le> daysInMonth (int y) m
       then Some (int y, m, d) else None)"
proof -
  have y: "y div 1000 < 10" using assms(1) by simp
  have dv: "digitVal (digitChar (y div 1000)) = y div 1000"
    "digitVal (digitChar (y div 100 mod 10)) = y div 100 mod 10"
    "digitVal (digitChar (y div 10 mod 10)) = y div 10 mod 10"
    "digitVal (digitChar (y mod 10)) = y mod 10"
    "digitVal (digitChar (m div 10)) = m div 10"
    "digitVal (digitChar (m mod 10)) = m mod 10"
    "digitVal (digitChar (d div 10)) = d div 10"
    "digitVal (digitChar (d mod 10)) = d mod 10"
    using assms by (simp_all add: digitVal_digitChar)
  have dg: "isDigit (digitChar (y div 1000))"
    "isDigit (digitChar (y div 100 mod 10))"
    "isDigit (digitChar (y div 10 mod 10))"
    "isDigit (digitChar (y mod 10))"
    "isDigit (digitChar (m div 10))"
    "isDigit (digitChar (m mod 10))"
    "isDigit (digitChar (d div 10))"
    "isDigit (digitChar (d mod 10))"
    using assms by (simp_all add: isDigit_digitChar)
  have "int (1000 * (y div 1000) + 100 * (y div 100 mod 10) + 10 * (y div 10 mod 10) + y mod 10)
      = int y"
    by (simp only: digits_4)
  then have yi: "1000 * int (y div 1000) + 100 * int (y div 100 mod 10)
      + 10 * int (y div 10 mod 10) + int (y mod 10) = int y"
    by simp
  show ?thesis
    unfolding padNat_4 [OF assms(1)] padNat_2 [OF assms(2)] padNat_2 [OF assms(3)]
    by (simp add: parseDate_def Let_def dv dg yi digits_2)
qed

lemma parseDate_isoDate:
  assumes c: "civilFromDays n = (y, m, d)" and r: "0 \<le> y" "y \<le> 9999"
  shows "parseDate (isoDate n) = Some (y, m, d)"
proof -
  from civilFromDays_makeDay [OF c] have v: "validDate y m d" by simp
  then have md: "m < 100" "d < 100"
    using daysInMonth_le [of y m] by (simp_all add: validDate_def)
  from r have y: "nat y < 10000" "int (nat y) = y" by simp_all
  have "isoDate n = padNat 4 (nat y) @ ''-'' @ padNat 2 m @ ''-'' @ padNat 2 d"
    using r by (simp add: isoDate_def c showYear_def)
  then show ?thesis
    using v by (simp only: parseDate_digits [OF y(1) md] y(2)) (simp add: validDate_def)
qed


lemma parseDate_year_range:
  assumes "parseDate s = Some (y, m, d)"
  shows "0 \<le> y \<and> y \<le> 9999"
proof -
  from parseDate_SomeD [OF assms] obtain y1 y2 y3 y4 where
    dg: "isDigit y1" "isDigit y2" "isDigit y3" "isDigit y4"
    and y: "y = int (1000 * digitVal y1 + 100 * digitVal y2 + 10 * digitVal y3 + digitVal y4)"
    by blast
  from dg [THEN digit_le9] show ?thesis unfolding y by simp
qed


lemma isoDate_dayNumber:
  assumes "dayNumber s = Some n"
  shows "isoDate n = s"
proof -
  from assms obtain y m d where p: "parseDate s = Some (y, m, d)" and n: "n = makeDay y m d"
    by (auto simp: dayNumber_def)
  from parseDate_SomeD [OF p] have v: "validDate y m d" by blast
  from parseDate_year_range [OF p] have "0 \<le> y" "y \<le> 9999" by simp_all
  have c: "civilFromDays n = (y, m, d)" unfolding n by (rule civilFromDays_of_makeDay [OF v])
  from parseDate_isoDate [OF c \<open>0 \<le> y\<close> \<open>y \<le> 9999\<close>] have "dayNumber (isoDate n) = Some n"
    using n by (simp add: dayNumber_def)
  show ?thesis
  proof (rule ccontr)
    assume "isoDate n \<noteq> s"
    then consider "isoDate n < s" | "s < isoDate n" by fastforce
    then show False
    proof cases
      case 1
      from dayNumber_string_less [OF \<open>dayNumber (isoDate n) = Some n\<close> assms 1] show False by simp
    next
      case 2
      from dayNumber_string_less [OF assms \<open>dayNumber (isoDate n) = Some n\<close> 2] show False by simp
    qed
  qed
qed

subsection \<open>The metrics of both functions\<close>

text \<open>
  C4. For every list of records, \<open>calculateEligibility\<close> and \<open>calculateStats\<close> both count
  the active days as the number of distinct date strings, and their \<open>averageHours\<close> is the
  sum of the hours of all records (a non-numeric or missing value counting as 0, records
  that share a date each adding theirs) divided by that number of distinct dates when it
  is positive, and 0 otherwise; \<open>totalSubmissions\<close> is the number of records.
\<close>

theorem metrics_distinct_days_all_hours:
  "activeDays (calculateEligibility activities joiningDate) = distinctDates activities
   \<and> eligibility_result.averageHours (calculateEligibility activities joiningDate)
       = (if distinctDates activities > 0
          then sumHours activities / of_nat (distinctDates activities) else 0)
   \<and> totalActiveDays (calculateStats clk activities) = distinctDates activities
   \<and> statistics.averageHours (calculateStats clk activities)
       = (if distinctDates activities > 0
          then sumHours activities / of_nat (distinctDates activities) else 0)
   \<and> totalSubmissions (calculateStats clk activities) = length activities"
  by (simp add: calculateEligibility_def calculateStats_def Let_def length_newSet foldl_add
      orZero_Number distinctDates_def sumHours_def newSet_eq_Nil)

subsection \<open>Eligibility\<close>

text \<open>
  C5. For every list of records, \<open>isEligible\<close> is true exactly when the list of reasons is
  empty and \<open>activeDays\<close> is positive; with no records the result is not eligible.
\<close>

theorem isEligible_iff_no_reasons_and_active:
  "isEligible (calculateEligibility activities joiningDate)
     = (reasons (calculateEligibility activities joiningDate) = []
        \<and> activeDays (calculateEligibility activities joiningDate) > 0)
   \<and> \<not> isEligible (calculateEligibility [] joiningDate)"
  by (simp add: calculateEligibility_def Let_def newSet_def)

text \<open>
  C3. The two records of 2024-01-01 with 3 hours and of 2024-01-02 with 2 hours, whatever
  their other fields, give 2 active days, an average of 2.5 hours, a largest gap of 0 and no
  eligibility, with the one reason that 60 active days are required.
\<close>

theorem scenario_two_consecutive_days:
  "calculateEligibility
     [\<lparr> internId = i1, date = ''2024-01-01'', hours = Numeric 3, category = c1,
        description = t1, proofLink = p1, activityId = a1, timestamp = s1,
        qualityScore = q1 \<rparr>,
      \<lparr> internId = i2, date = ''2024-01-02'', hours = Numeric 2, category = c2,
        description = t2, proofLink = p2, activityId = a2, timestamp = s2,
        qualityScore = q2 \<rparr>] joiningDate
   = \<lparr> isEligible = False, activeDays = 2, averageHours = 5 / 2, maxGapDays = 0,
       reasons = [''Requires 60 active days (Current: 2)''] \<rparr>
   \<and> sublist ''60 active days'' ''Requires 60 active days (Current: 2)''"
  by code_simp

text \<open>
  C6. With no records \<open>calculateStats\<close> returns the statistics that are all 0, and
  \<open>calculateEligibility\<close> returns a result that is not eligible and whose reasons include
  the one about active days. Both are values of total functions: no branch of either
  source function throws.
\<close>

theorem empty_input_defaults:
  "calculateStats clk []
     = \<lparr> totalActiveDays = 0, averageHours = 0, currentStreak = 0, totalSubmissions = 0 \<rparr>
   \<and> isEligible (calculateEligibility [] joiningDate) = False
   \<and> ''Requires 60 active days (Current: 0)''
       \<in> set (reasons (calculateEligibility [] joiningDate))"
  by code_simp

text \<open>
  C7. The \<open>joiningDate\<close> argument of \<open>calculateEligibility\<close> is accepted and never read:
  for every list of records, any two joining dates give the same result, field by field.
\<close>

theorem calculateEligibility_ignores_joiningDate:
  "calculateEligibility activities joiningDate1 = calculateEligibility activities joiningDate2"
  by (simp add: calculateEligibility_def)

subsection \<open>The largest gap\<close>

text \<open>
  The index loop of \<open>calculateEligibility\<close> computes the maximum of its start value
  and the gaps of the pairs from index \<open>i - 1\<close> on.
\<close>

lemma getTime_dayNumber: "getTime s = map_option (\<lambda>n. n * msPerDay) (dayNumber s)"
  by (simp add: getTime_def dayNumber_def option.map_comp comp_def case_prod_unfold)

lemma div_days: "(of_int (a * msPerDay - b * msPerDay) :: rat) / of_int msPerDay = of_int (a - b)"
proof -
  have "a * msPerDay - b * msPerDay = (a - b) * msPerDay" by (simp add: algebra_simps)
  moreover have "(of_int msPerDay :: rat) \<noteq> 0" by (simp add: msPerDay_def)
  ultimately show ?thesis by simp
qed

lemma floor_days: "\<lfloor>(of_int (a * msPerDay - b * msPerDay) :: rat) / of_int msPerDay\<rfloor> = a - b"
  unfolding div_days by simp

lemma mathFloor_days:
  "mathFloor (nanDivDay (nanSub (Some (a * msPerDay)) (Some (b * msPerDay)))) = Some (a - b)"
  by (simp only: mathFloor_def nanDivDay_def nanSub_def option.case option.map floor_days)

lemma diffDays_pairGap:
  "map_option (\<lambda>f. f - 1) (mathFloor (nanDivDay (nanSub (getTime later) (getTime earlier))))
     = pairGap earlier later"
proof (cases "dayNumber earlier")
  case None
  then show ?thesis
    by (cases "dayNumber later")
       (simp_all add: getTime_dayNumber mathFloor_def nanDivDay_def nanSub_def pairGap_def)
next
  case p: (Some p)
  show ?thesis
  proof (cases "dayNumber later")
    case None
    with p show ?thesis
      by (simp add: getTime_dayNumber mathFloor_def nanDivDay_def nanSub_def pairGap_def)
  next
    case (Some c)
    with p have "mathFloor (nanDivDay (nanSub (getTime later) (getTime earlier))) = Some (c - p)"
      by (simp only: getTime_dayNumber option.map mathFloor_days)
    with p Some show ?thesis by (simp add: pairGap_def)
  qed
qed

lemma gapsOf_Cons2:
  "gapsOf (p # c # rest) = (case pairGap p c of None \<Rightarrow> [] | Some g \<Rightarrow> [g]) @ gapsOf (c # rest)"
  by (simp add: gapsOf_def)

lemma gapsOf_short: "length ds \<le> 1 \<Longrightarrow> gapsOf ds = []"
  by (cases ds) (simp_all add: gapsOf_def)

lemma drop_pred_two:
  assumes "1 \<le> i" "i < length xs"
  shows "drop (i - 1) xs = xs ! (i - 1) # xs ! i # drop (i + 1) xs"
proof -
  from assms have "drop (i - 1) xs = xs ! (i - 1) # drop (Suc (i - 1)) xs"
    by (intro Cons_nth_drop_Suc [symmetric]) simp
  moreover from assms have "Suc (i - 1) = i" by simp
  moreover from assms have "drop i xs = xs ! i # drop (Suc i) xs"
    by (intro Cons_nth_drop_Suc [symmetric]) simp
  ultimately show ?thesis by simp
qed

lemma Max_step: "Max (set (m # g # G)) = Max (set ((if g > m then g else m) # G))"
  for m g :: int
  by (cases "G = []") (auto simp: max_def)

lemma gapLoop_Max:
  "1 \<le> i \<Longrightarrow>
     gapLoop sortedActs i maxGap = Max (set (maxGap # gapsOf (map date (drop (i - 1) sortedActs))))"
proof (induction sortedActs i maxGap rule: gapLoop.induct)
  case (1 sortedActs i maxGap)
  show ?case
  proof (cases "i < length sortedActs")
    case True
    note d = drop_pred_two [OF "1.prems" True]
    from True have d': "drop i sortedActs = sortedActs ! i # drop (i + 1) sortedActs"
      by (simp add: Cons_nth_drop_Suc)
    let ?g = "pairGap (date (sortedActs ! (i - 1))) (date (sortedActs ! i))"
    let ?m = "case ?g of None \<Rightarrow> maxGap | Some g \<Rightarrow> if g > maxGap then g else maxGap"
    have "gapLoop sortedActs i maxGap = gapLoop sortedActs (i + 1) ?m"
      by (subst gapLoop.simps) (simp only: True if_True Let_def diffDays_pairGap)
    also have "\<dots> = Max (set (?m # gapsOf (map date (drop i sortedActs))))"
      using "1.IH" [OF True refl refl refl refl] unfolding diffDays_pairGap by simp
    also have "\<dots> = Max (set (maxGap # gapsOf (map date (drop (i - 1) sortedActs))))"
      unfolding d d' list.map gapsOf_Cons2 [of "date (sortedActs ! (i - 1))"]
      by (cases ?g) (simp_all only: option.case append_Nil append_Cons Max_step)
    finally show ?thesis .
  next
    case False
    then have "length (map date (drop (i - 1) sortedActs)) \<le> 1" by simp
    then have "gapsOf (map date (drop (i - 1) sortedActs)) = []" by (rule gapsOf_short)
    with False show ?thesis by (subst gapLoop.simps) simp
  qed
qed

lemma maxGapDays_spec: "maxGapDays (calculateEligibility activities joiningDate) = specMaxGap activities"
proof (cases "length (sort_key date activities) > 1")
  case True
  then show ?thesis
    using gapLoop_Max [of 1 "sort_key date activities" 0]
    by (simp add: calculateEligibility_def Let_def specMaxGap_def)
next
  case False
  then have "length (map date (sort_key date activities)) \<le> 1" by simp
  then have "gapsOf (map date (sort_key date activities)) = []" by (rule gapsOf_short)
  with False show ?thesis
    by (simp add: calculateEligibility_def Let_def specMaxGap_def)
qed

lemma specMaxGap_nonneg: "0 \<le> specMaxGap activities"
  by (simp add: specMaxGap_def)

text \<open>
  Records of one date stand next to each other in the sorted list; their gap of -1 never
  raises a maximum that starts at 0, so the dates may be taken once each.
\<close>

lemma pairGap_same: "pairGap d d = None \<or> pairGap d d = Some (- 1)"
  by (cases "dayNumber d") (simp_all add: pairGap_def)

lemma Max_ignore_minus_one:
  fixes G H :: "int list"
  assumes "insert (- 1) (set G) = insert (- 1) (set H)"
  shows "Max (set (0 # G)) = Max (set (0 # H))"
proof -
  have absorb: "Max (insert (- 1) (insert 0 (set K))) = Max (insert 0 (set K))" for K :: "int list"
  proof -
    have "0 \<le> Max (insert 0 (set K))" by (rule Max_ge) simp_all
    then have "- 1 \<le> Max (insert 0 (set K))" by linarith
    then have "max (- 1) (Max (insert 0 (set K))) = Max (insert 0 (set K))"
      by (rule max_absorb2)
    then show ?thesis by (subst Max_insert) simp_all
  qed
  from assms have "insert (- 1) (insert 0 (set G)) = insert (- 1) (insert 0 (set H))"
    by (simp add: insert_commute)
  then have "Max (insert (- 1) (insert 0 (set G))) = Max (insert (- 1) (insert 0 (set H)))"
    by (simp only:)
  then show ?thesis by (simp only: absorb list.set)
qed

lemma distinct_remdups_adj_sorted: "sorted xs \<Longrightarrow> distinct (remdups_adj xs)"
proof (induction xs rule: remdups_adj.induct)
  case 1
  show ?case by simp
next
  case (2 x)
  show ?case by simp
next
  case (3 x y xs)
  show ?case
  proof (cases "x = y")
    case True
    with 3 show ?thesis by simp
  next
    case False
    with "3.prems" have "x \<notin> set (y # xs)" by auto
    with False 3 show ?thesis by simp
  qed
qed

lemma remdups_adj_sort: "remdups_adj (sort xs) = sorted_list_of_set (set xs)"
proof -
  have "sorted (remdups_adj (sort xs))" by simp
  moreover have "distinct (remdups_adj (sort xs))" by (simp add: distinct_remdups_adj_sorted)
  moreover have "set (remdups_adj (sort xs)) = set xs" by simp
  ultimately show ?thesis
    using sorted_list_of_set.idem_if_sorted_distinct [of "remdups_adj (sort xs)"] by simp
qed

lemma pairGap_same_set:
  "insert (- 1) (set (case pairGap d d of None \<Rightarrow> [] | Some g \<Rightarrow> [g]) \<union> S) = insert (- 1) S"
  using pairGap_same [of d] by (cases "pairGap d d") simp_all

lemma gaps_remdups_adj:
  "insert (- 1) (set (gapsOf (remdups_adj ds))) = insert (- 1) (set (gapsOf ds))"
proof (induction ds rule: remdups_adj.induct)
  case 1
  show ?case by simp
next
  case (2 x)
  show ?case by simp
next
  case (3 x y xs)
  show ?case
  proof (cases "x = y")
    case True
    have "remdups_adj (x # y # xs) = remdups_adj (y # xs)" using True by simp
    moreover have "insert (- 1) (set (gapsOf (x # y # xs))) = insert (- 1) (set (gapsOf (y # xs)))"
      unfolding True gapsOf_Cons2 [of y y] set_append by (rule pairGap_same_set)
    moreover have "insert (- 1) (set (gapsOf (remdups_adj (y # xs)))) = insert (- 1) (set (gapsOf (y # xs)))"
      using "3.IH"(1) [OF True] True by simp
    ultimately show ?thesis by (simp only:)
  next
    case False
    have ih: "insert (- 1) (set (gapsOf (remdups_adj (y # xs)))) = insert (- 1) (set (gapsOf (y # xs)))"
      using "3.IH"(2) [OF False] .
    obtain zs where zs: "remdups_adj (y # xs) = y # zs"
      by (cases "remdups_adj (y # xs)") (simp, metis hd_remdups_adj list.sel(1))
    have r: "remdups_adj (x # y # xs) = x # y # zs" using False zs by simp
    have "insert (- 1) (set (gapsOf (x # y # zs)))
        = set (case pairGap x y of None \<Rightarrow> [] | Some g \<Rightarrow> [g]) \<union> insert (- 1) (set (gapsOf (y # zs)))"
      unfolding gapsOf_Cons2 [of x y] by simp
    also have "\<dots> = set (case pairGap x y of None \<Rightarrow> [] | Some g \<Rightarrow> [g]) \<union> insert (- 1) (set (gapsOf (y # xs)))"
      using ih unfolding zs by (simp only:)
    also have "\<dots> = insert (- 1) (set (gapsOf (x # y # xs)))"
      unfolding gapsOf_Cons2 [of x y] by simp
    finally show ?thesis unfolding r .
  qed
qed

lemma three_days_gap:
  assumes d: "dayNumber d1 = Some D" "dayNumber d2 = Some (D + 1)" "dayNumber d3 = Some (D + 4)"
    and dates: "date ` set activities = {d1, d2, d3}"
  shows "specMaxGap activities = 2"
proof -
  have lt: "d1 < d2" "d2 < d3"
    using dayNumber_less_string [OF d(1,2)] dayNumber_less_string [OF d(2,3)] by simp_all
  then have "sorted [d1, d2, d3]" "distinct [d1, d2, d3]" by auto
  then have "sorted_list_of_set (set [d1, d2, d3]) = [d1, d2, d3]"
    by (rule sorted_list_of_set.idem_if_sorted_distinct)
  with dates have "remdups_adj (sort (map date activities)) = [d1, d2, d3]"
    by (simp add: remdups_adj_sort)
  then have "insert (- 1) (set (gapsOf (sort (map date activities))))
      = insert (- 1) (set (gapsOf [d1, d2, d3]))"
    using gaps_remdups_adj [of "sort (map date activities)"] by simp
  then have "specMaxGap activities = Max (set (0 # gapsOf [d1, d2, d3]))"
    unfolding specMaxGap_def map_sort_key by (rule Max_ignore_minus_one)
  also have "gapsOf [d1, d2, d3] = [0, 2]"
    using d by (simp add: gapsOf_def pairGap_def)
  finally show ?thesis by simp
qed

text \<open>
  On dates of the data model the gaps are those of the calendar days of the records, sorted.
\<close>

lemma gapsOf_days: "map dayNumber ds = map Some ns \<Longrightarrow> gapsOf ds = dayGaps ns"
proof (induction ds arbitrary: ns rule: induct_list012)
  case 1
  then show ?case by (simp add: gapsOf_def dayGaps_def)
next
  case (2 x)
  then show ?case by (auto simp: gapsOf_def dayGaps_def)
next
  case (3 x y zs)
  from "3.prems" obtain a b ms where ns: "ns = a # b # ms"
    and a: "dayNumber x = Some a" and b: "dayNumber y = Some b"
    and ms: "map dayNumber zs = map Some ms"
    by (auto simp: map_eq_Cons_conv)
  from b ms have "map dayNumber (y # zs) = map Some (b # ms)" by simp
  then have "gapsOf (y # zs) = dayGaps (b # ms)" by (rule "3.IH"(2))
  moreover have "dayGaps (a # b # ms) = (b - a - 1) # dayGaps (b # ms)"
    by (simp add: dayGaps_def)
  moreover have "gapsOf (x # y # zs) = (b - a - 1) # gapsOf (y # zs)"
    unfolding gapsOf_Cons2 [of x y] using a b by (simp add: pairGap_def)
  ultimately show ?case unfolding ns by simp
qed

lemma maxGapDays_days:
  assumes v: "\<forall>a \<in> set activities. validDateString (date a)"
  shows "maxGapDays (calculateEligibility activities joiningDate)
    = Max (set (0 # dayGaps (sort (dayNumbers activities))))"
proof -
  have "map dayNumber (map date (sort_key date activities)) = map Some (sort (dayNumbers activities))"
    using sorted_records_by_day [OF v] by (simp add: comp_def)
  then have "gapsOf (map date (sort_key date activities)) = dayGaps (sort (dayNumbers activities))"
    by (rule gapsOf_days)
  then show ?thesis by (simp only: maxGapDays_spec specMaxGap_def)
qed

text \<open>
  C1. For every list of records whose dates are valid \<open>YYYY-MM-DD\<close> strings,
  \<open>maxGapDays\<close> is the maximum of 0 and the gaps of the adjacent pairs of the records
  sorted ascending by date (records of one date kept), the gap of a pair being the days
  between the two dates less one. Sorting the records by their date strings sorts them by
  calendar day, so this is the maximum of 0 and the gaps of the sorted calendar days. It
  is never negative; a date next to itself has the gap -1; and records on the days D, D+1
  and D+4 (each day at least once, in any order) give exactly 2.
\<close>

theorem maxGapDays_sorted_adjacent_max:
  assumes "\<forall>a \<in> set activities. validDateString (date a)"
  shows "maxGapDays (calculateEligibility activities joiningDate) = specMaxGap activities
   \<and> map (\<lambda>a. dayNumber (date a)) (sort_key date activities)
       = map Some (sort (dayNumbers activities))
   \<and> maxGapDays (calculateEligibility activities joiningDate)
       = Max (set (0 # dayGaps (sort (dayNumbers activities))))
   \<and> 0 \<le> maxGapDays (calculateEligibility activities joiningDate)
   \<and> (dayNumber d = Some n \<longrightarrow> pairGap d d = Some (- 1))
   \<and> (dayNumber d1 = Some D \<and> dayNumber d2 = Some (D + 1) \<and> dayNumber d3 = Some (D + 4)
        \<and> date ` set activities = {d1, d2, d3}
      \<longrightarrow> maxGapDays (calculateEligibility activities joiningDate) = 2)"
proof (intro conjI impI)
  show "maxGapDays (calculateEligibility activities joiningDate) = specMaxGap activities"
    by (rule maxGapDays_spec)
next
  show "map (\<lambda>a. dayNumber (date a)) (sort_key date activities)
      = map Some (sort (dayNumbers activities))"
    using assms by (rule sorted_records_by_day)
next
  show "maxGapDays (calculateEligibility activities joiningDate)
      = Max (set (0 # dayGaps (sort (dayNumbers activities))))"
    using assms by (rule maxGapDays_days)
next
  show "0 \<le> maxGapDays (calculateEligibility activities joiningDate)"
    by (simp add: maxGapDays_spec specMaxGap_nonneg)
next
  assume "dayNumber d = Some n"
  then show "pairGap d d = Some (- 1)" by (simp add: pairGap_def)
next
  assume "dayNumber d1 = Some D \<and> dayNumber d2 = Some (D + 1) \<and> dayNumber d3 = Some (D + 4)
      \<and> date ` set activities = {d1, d2, d3}"
  then show "maxGapDays (calculateEligibility activities joiningDate) = 2"
    using three_days_gap [of d1 D d2 d3 activities] by (simp add: maxGapDays_spec)
qed

theorem maxGapDays_sorted_adjacent_max_witness:
  "validDateString ''2024-01-05'' \<and> validDateString ''2024-01-01''
   \<and> validDateString ''2024-01-02''
   \<and> dayNumber ''2024-01-01'' = Some 19723
   \<and> pairGap ''2024-01-01'' ''2024-01-01'' = Some (- 1)
   \<and> dayNumber ''2024-01-02'' = Some (19723 + 1)
   \<and> dayNumber ''2024-01-05'' = Some (19723 + 4)
   \<and> date ` set
        [\<lparr> internId = ''CIAL-001'', date = ''2024-01-05'', hours = Numeric 3,
           category = ''Learning'', description = ''notes'', proofLink = [],
           activityId = ''act-3'', timestamp = ''2024-01-05T10:00:00.000Z'',
           qualityScore = Some 5 \<rparr>,
         \<lparr> internId = ''CIAL-001'', date = ''2024-01-01'', hours = Numeric 3,
           category = ''Learning'', description = ''notes'', proofLink = [],
           activityId = ''act-1'', timestamp = ''2024-01-01T10:00:00.000Z'',
           qualityScore = Some 5 \<rparr>,
         \<lparr> internId = ''CIAL-001'', date = ''2024-01-02'', hours = Numeric 2,
           category = ''Learning'', description = ''notes'', proofLink = [],
           activityId = ''act-2'', timestamp = ''2024-01-02T10:00:00.000Z'',
           qualityScore = Some 5 \<rparr>]
       = {''2024-01-01'', ''2024-01-02'', ''2024-01-05''}
   \<and> maxGapDays (calculateEligibility
        [\<lparr> internId = ''CIAL-001'', date = ''2024-01-05'', hours = Numeric 3,
           category = ''Learning'', description = ''notes'', proofLink = [],
           activityId = ''act-3'', timestamp = ''2024-01-05T10:00:00.000Z'',
           qualityScore = Some 5 \<rparr>,
         \<lparr> internId = ''CIAL-001'', date = ''2024-01-01'', hours = Numeric 3,
           category = ''Learning'', description = ''notes'', proofLink = [],
           activityId = ''act-1'', timestamp = ''2024-01-01T10:00:00.000Z'',
           qualityScore = Some 5 \<rparr>,
         \<lparr> internId = ''CIAL-001'', date = ''2024-01-02'', hours = Numeric 2,
           category = ''Learning'', description = ''notes'', proofLink = [],
           activityId = ''act-2'', timestamp = ''2024-01-02T10:00:00.000Z'',
           qualityScore = Some 5 \<rparr>] ''2024-01-01'') = 2"
proof -
  define acts where "acts =
        [\<lparr> internId = ''CIAL-001'', date = ''2024-01-05'', hours = Numeric 3,
           category = ''Learning'', description = ''notes'', proofLink = [],
           activityId = ''act-3'', timestamp = ''2024-01-05T10:00:00.000Z'',
           qualityScore = Some 5 \<rparr>,
         \<lparr> internId = ''CIAL-001'', date = ''2024-01-01'', hours = Numeric 3,
           category = ''Learning'', description = ''notes'', proofLink = [],
           activityId = ''act-1'', timestamp = ''2024-01-01T10:00:00.000Z'',
           qualityScore = Some 5 \<rparr>,
         \<lparr> internId = ''CIAL-001'', date = ''2024-01-02'', hours = Numeric 2,
           category = ''Learning'', description = ''notes'', proofLink = [],
           activityId = ''act-2'', timestamp = ''2024-01-02T10:00:00.000Z'',
           qualityScore = Some 5 \<rparr>]"
  have d1: "dayNumber ''2024-01-01'' = Some 19723"
    and d2: "dayNumber ''2024-01-02'' = Some (19723 + 1)"
    and d3: "dayNumber ''2024-01-05'' = Some (19723 + 4)"
    by (simp_all add: dayNumber_examples)
  have v5: "validDateString ''2024-01-05''" and v1: "validDateString ''2024-01-01''"
    and v2: "validDateString ''2024-01-02''"
    by (simp_all add: validDateString_dayNumber dayNumber_examples)
  from v5 v1 v2 have v: "\<forall>a \<in> set acts. validDateString (date a)"
    by (simp add: acts_def)
  have ds: "date ` set acts = {''2024-01-01'', ''2024-01-02'', ''2024-01-05''}"
    by (auto simp: acts_def)
  note inst = maxGapDays_sorted_adjacent_max [where d = "''2024-01-01''" and n = 19723
      and ?d1.0 = "''2024-01-01''" and D = 19723 and ?d2.0 = "''2024-01-02''"
      and ?d3.0 = "''2024-01-05''" and activities = acts and joiningDate = "''2024-01-01''", OF v]
  from inst d1 have g: "pairGap ''2024-01-01'' ''2024-01-01'' = Some (- 1)"
    by blast
  from inst d1 d2 d3 ds have m: "maxGapDays (calculateEligibility acts ''2024-01-01'') = 2"
    by blast
  show ?thesis
    unfolding acts_def [symmetric] by (intro conjI v5 v1 v2 d1 d2 d3 ds g m)
qed

subsection \<open>The streak\<close>

lemma streakLoop_le:
  "streak \<le> i \<Longrightarrow> i \<le> length dateStrs \<Longrightarrow> streakLoop dateStrs i streak \<le> length dateStrs"
proof (induction dateStrs i streak rule: streakLoop.induct)
  case (1 dateStrs i streak)
  show ?case
  proof (cases "i < length dateStrs")
    case True
    with "1.prems" "1.IH" show ?thesis
      by (subst streakLoop.simps) (auto simp: Let_def)
  next
    case False
    with "1.prems" show ?thesis
      by (subst streakLoop.simps) simp
  qed
qed

text \<open>
  C10. For every list of records and every clock, the statistics satisfy
  \<open>0 \<le> currentStreak \<le> totalActiveDays \<le> totalSubmissions\<close>.
\<close>

theorem streak_le_active_days_le_submissions:
  "0 \<le> currentStreak (calculateStats clk activities)
   \<and> currentStreak (calculateStats clk activities)
       \<le> totalActiveDays (calculateStats clk activities)
   \<and> totalActiveDays (calculateStats clk activities)
       \<le> totalSubmissions (calculateStats clk activities)"
proof -
  let ?ds = "rev (sort (newSet (map date activities)))"
  have "streakLoop ?ds 1 1 \<le> length ?ds" if "activities \<noteq> []"
  proof (rule streakLoop_le)
    show "(1::nat) \<le> 1" by simp
    from that have "newSet (map date activities) \<noteq> []" by (simp add: newSet_eq_Nil)
    then show "1 \<le> length ?ds" by (simp add: Suc_le_eq)
  qed
  then have a: "currentStreak (calculateStats clk activities)
      \<le> totalActiveDays (calculateStats clk activities)"
    by (simp add: calculateStats_def Let_def)
  have b: "totalActiveDays (calculateStats clk activities)
      \<le> totalSubmissions (calculateStats clk activities)"
    using length_newSet_le [of "map date activities"] by (simp add: calculateStats_def Let_def)
  from a b show ?thesis by simp
qed






















subsection \<open>The clock of the statistics\<close>

text \<open>
  C8, as the code has it. \<open>calculateStats\<close> has the records as its only parameter and
  reads the wall clock itself. The same record, a streak of 1 at noon of 2024-01-02, is a
  streak of 0 at noon of 2024-01-04: the output is not a function of the records alone.
\<close>

theorem calculateStats_reads_the_clock:
  "currentStreak (calculateStats
      \<lparr> firstNow = 1704196800000, secondNow = 1704196800000, tzaNow = 0,
        tzaYesterday = 0 \<rparr>
      [\<lparr> internId = ''CIAL-001'', date = ''2024-01-02'', hours = Numeric 3,
        category = ''Learning'', description = ''notes'', proofLink = [],
        activityId = ''act-1'', timestamp = ''2024-01-02T10:00:00.000Z'',
        qualityScore = Some 5 \<rparr>]) = 1
   \<and> currentStreak (calculateStats
      \<lparr> firstNow = 1704369600000, secondNow = 1704369600000, tzaNow = 0,
        tzaYesterday = 0 \<rparr>
      [\<lparr> internId = ''CIAL-001'', date = ''2024-01-02'', hours = Numeric 3,
        category = ''Learning'', description = ''notes'', proofLink = [],
        activityId = ''act-1'', timestamp = ''2024-01-02T10:00:00.000Z'',
        qualityScore = Some 5 \<rparr>]) = 0"
  by (simp add: calculateStats_def Let_def newSet_def setAdd_def streakLoop.simps
      todayStr_isoDate yesterdayStr_isoDate setDateBack_def msPerDay_def isoDate_examples)

text \<open>
  C8, amended. The output of \<open>calculateStats\<close> is determined by the records and by the two
  day strings it derives from the clock: for the same records, two clocks that give the
  same string for today and the same string for yesterday give the same statistics; and
  \<open>totalActiveDays\<close>, \<open>averageHours\<close> and \<open>totalSubmissions\<close> are the same under every
  clock.
\<close>

theorem calculateStats_determined_by_day_strings:
  "(todayStr clk1 = todayStr clk2 \<and> yesterdayStr clk1 = yesterdayStr clk2
      \<longrightarrow> calculateStats clk1 activities = calculateStats clk2 activities)
   \<and> totalActiveDays (calculateStats clk1 activities)
       = totalActiveDays (calculateStats clk2 activities)
   \<and> statistics.averageHours (calculateStats clk1 activities)
       = statistics.averageHours (calculateStats clk2 activities)
   \<and> totalSubmissions (calculateStats clk1 activities)
       = totalSubmissions (calculateStats clk2 activities)"
  by (simp add: calculateStats_def Let_def)

theorem calculateStats_determined_by_day_strings_witness:
  "todayStr
      \<lparr> firstNow = 1704196800000, secondNow = 1704196800000, tzaNow = 0,
        tzaYesterday = 0 \<rparr>
     = todayStr
      \<lparr> firstNow = 1704200400000, secondNow = 1704200400001, tzaNow = 0,
        tzaYesterday = 0 \<rparr>
   \<and> yesterdayStr
      \<lparr> firstNow = 1704196800000, secondNow = 1704196800000, tzaNow = 0,
        tzaYesterday = 0 \<rparr>
     = yesterdayStr
      \<lparr> firstNow = 1704200400000, secondNow = 1704200400001, tzaNow = 0,
        tzaYesterday = 0 \<rparr>
   \<and> calculateStats
      \<lparr> firstNow = 1704196800000, secondNow = 1704196800000, tzaNow = 0,
        tzaYesterday = 0 \<rparr>
      [\<lparr> internId = ''CIAL-001'', date = ''2024-01-02'', hours = Numeric 3,
        category = ''Learning'', description = ''notes'', proofLink = [],
        activityId = ''act-1'', timestamp = ''2024-01-02T10:00:00.000Z'',
        qualityScore = Some 5 \<rparr>]
     = calculateStats
      \<lparr> firstNow = 1704200400000, secondNow = 1704200400001, tzaNow = 0,
        tzaYesterday = 0 \<rparr>
      [\<lparr> internId = ''CIAL-001'', date = ''2024-01-02'', hours = Numeric 3,
        category = ''Learning'', description = ''notes'', proofLink = [],
        activityId = ''act-1'', timestamp = ''2024-01-02T10:00:00.000Z'',
        qualityScore = Some 5 \<rparr>]"
proof -
  have t: "todayStr
      \<lparr> firstNow = 1704196800000, secondNow = 1704196800000, tzaNow = 0,
        tzaYesterday = 0 \<rparr>
     = todayStr
      \<lparr> firstNow = 1704200400000, secondNow = 1704200400001, tzaNow = 0,
        tzaYesterday = 0 \<rparr>"
    by (simp add: todayStr_isoDate msPerDay_def)
  have y: "yesterdayStr
      \<lparr> firstNow = 1704196800000, secondNow = 1704196800000, tzaNow = 0,
        tzaYesterday = 0 \<rparr>
     = yesterdayStr
      \<lparr> firstNow = 1704200400000, secondNow = 1704200400001, tzaNow = 0,
        tzaYesterday = 0 \<rparr>"
    by (simp add: yesterdayStr_isoDate setDateBack_def msPerDay_def)
  from t y calculateStats_determined_by_day_strings
  show ?thesis by blast
qed

subsection \<open>Submitting a record\<close>

text \<open>
  \<open>submitActivity\<close> fails exactly when \<open>find\<close> has a result, that is, when one of the
  records of \<open>getActivities\<close> has the date.
\<close>

lemma find_Some_ex: "(\<exists>y. find P xs = Some y) = (\<exists>x \<in> set xs. P x)"
  by (induction xs) auto

lemma submitActivity_error_iff:
  "(submitActivity env activity = Inl (Error ''A record for today already exists.''))
     = (\<exists>a \<in> set (getActivities env (Some (internId activity))). date a = date activity)"
  by (simp add: submitActivity_def Let_def find_Some_ex)

lemma submitActivity_returns:
  "submitActivity env activity \<noteq> Inl (Error ''A record for today already exists.'') \<Longrightarrow>
     \<exists>n. submitActivity env activity = Inr n \<and> recordKey n = recordKey activity"
  by (simp add: submitActivity_def Let_def recordKey_def split: if_splits)

lemma key_fresh:
  assumes "submitActivity env activity \<noteq> Inl (Error ''A record for today already exists.'')"
  shows "recordKey activity \<notin> recordKey ` set (fetchedActivities env)"
proof
  assume "recordKey activity \<in> recordKey ` set (fetchedActivities env)"
  then obtain a where a: "a \<in> set (fetchedActivities env)" "internId a = internId activity"
      "date a = date activity"
    by (auto simp: recordKey_def)
  then have "a \<in> set (getActivities env (Some (internId activity)))"
    by (cases "internId activity = []") (simp_all add: getActivities_def)
  with a(3) assms show False by (auto simp: submitActivity_error_iff)
qed

text \<open>
  The records that the check reads are the intern's own when the identifier is not empty;
  with the empty identifier the guard \<open>if (internId)\<close> skips the filter and the check
  reads the records of all interns.
\<close>

lemma getActivities_own:
  "i \<noteq> [] \<Longrightarrow> getActivities env (Some i) = filter (\<lambda>a. internId a = i) (fetchedActivities env)"
  by (simp add: getActivities_def)

lemma getActivities_empty_id: "getActivities env (Some []) = fetchedActivities env"
  by (simp add: getActivities_def)

text \<open>
  C9. For a submission with a non-empty intern identifier, \<open>submitActivity\<close> fails with
  "A record for today already exists." exactly when a fetched record has the submission's
  intern identifier and date. It fails in no other way; when it does not fail it returns a
  record with the submission's intern identifier and date, a pair that no fetched record
  has, so that fetched records with one record for each intern and date stay so when the
  new record is added.
\<close>

theorem submitActivity_rejects_same_day:
  assumes "internId activity \<noteq> []"
  shows "(submitActivity env activity = Inl (Error ''A record for today already exists.''))
     = (\<exists>a \<in> set (fetchedActivities env).
          internId a = internId activity \<and> date a = date activity)
   \<and> (case submitActivity env activity of
        Inl e \<Rightarrow> e = Error ''A record for today already exists.''
      | Inr n \<Rightarrow> recordKey n = recordKey activity
                 \<and> recordKey n \<notin> recordKey ` set (fetchedActivities env)
                 \<and> (distinct (map recordKey (fetchedActivities env))
                    \<longrightarrow> distinct (map recordKey (fetchedActivities env @ [n]))))"
proof
  show "(submitActivity env activity = Inl (Error ''A record for today already exists.''))
     = (\<exists>a \<in> set (fetchedActivities env).
          internId a = internId activity \<and> date a = date activity)"
    unfolding submitActivity_error_iff getActivities_own [OF assms] by auto
next
  show "case submitActivity env activity of
        Inl e \<Rightarrow> e = Error ''A record for today already exists.''
      | Inr n \<Rightarrow> recordKey n = recordKey activity
                 \<and> recordKey n \<notin> recordKey ` set (fetchedActivities env)
                 \<and> (distinct (map recordKey (fetchedActivities env))
                    \<longrightarrow> distinct (map recordKey (fetchedActivities env @ [n])))"
  proof (cases "submitActivity env activity = Inl (Error ''A record for today already exists.'')")
    case True
    then show ?thesis by simp
  next
    case False
    from submitActivity_returns [OF False] obtain n
      where n: "submitActivity env activity = Inr n" "recordKey n = recordKey activity"
      by blast
    with key_fresh [OF False] show ?thesis by simp
  qed
qed

theorem submitActivity_rejects_same_day_witness:
  "internId
     \<lparr> internId = ''CIAL-002'', date = ''2024-01-02'', hours = Numeric 3,
       category = ''Learning'', description = ''notes'', proofLink = [] \<rparr> \<noteq> []
   \<and> internId
     \<lparr> internId = ''CIAL-001'', date = ''2024-01-02'', hours = Numeric 3,
       category = ''Learning'', description = ''notes'', proofLink = [] \<rparr> \<noteq> []
   \<and> submitActivity
     \<lparr> fetchedActivities =
         [\<lparr> internId = ''CIAL-001'', date = ''2024-01-02'', hours = Numeric 3,
           category = ''Learning'', description = ''notes'', proofLink = [],
           activityId = ''act-1'', timestamp = ''2024-01-02T10:00:00.000Z'',
           qualityScore = Some 5 \<rparr>],
       aiScore = None, dateNow = 1704196800000, stampNow = 1704196800000 \<rparr>
     \<lparr> internId = ''CIAL-002'', date = ''2024-01-02'', hours = Numeric 3,
       category = ''Learning'', description = ''notes'', proofLink = [] \<rparr>
   \<noteq> Inl (Error ''A record for today already exists.'')
   \<and> submitActivity
     \<lparr> fetchedActivities =
         [\<lparr> internId = ''CIAL-001'', date = ''2024-01-02'', hours = Numeric 3,
           category = ''Learning'', description = ''notes'', proofLink = [],
           activityId = ''act-1'', timestamp = ''2024-01-02T10:00:00.000Z'',
           qualityScore = Some 5 \<rparr>],
       aiScore = None, dateNow = 1704196800000, stampNow = 1704196800000 \<rparr>
     \<lparr> internId = ''CIAL-001'', date = ''2024-01-02'', hours = Numeric 3,
       category = ''Learning'', description = ''notes'', proofLink = [] \<rparr>
   = Inl (Error ''A record for today already exists.'')"
  using
    submitActivity_rejects_same_day [of
      "\<lparr> internId = ''CIAL-002'', date = ''2024-01-02'', hours = Numeric 3,
       category = ''Learning'', description = ''notes'', proofLink = [] \<rparr>"
      "\<lparr> fetchedActivities =
         [\<lparr> internId = ''CIAL-001'', date = ''2024-01-02'', hours = Numeric 3,
           category = ''Learning'', description = ''notes'', proofLink = [],
           activityId = ''act-1'', timestamp = ''2024-01-02T10:00:00.000Z'',
           qualityScore = Some 5 \<rparr>],
       aiScore = None, dateNow = 1704196800000, stampNow = 1704196800000 \<rparr>"]
    submitActivity_rejects_same_day [of
      "\<lparr> internId = ''CIAL-001'', date = ''2024-01-02'', hours = Numeric 3,
       category = ''Learning'', description = ''notes'', proofLink = [] \<rparr>"
      "\<lparr> fetchedActivities =
         [\<lparr> internId = ''CIAL-001'', date = ''2024-01-02'', hours = Numeric 3,
           category = ''Learning'', description = ''notes'', proofLink = [],
           activityId = ''act-1'', timestamp = ''2024-01-02T10:00:00.000Z'',
           qualityScore = Some 5 \<rparr>],
       aiScore = None, dateNow = 1704196800000, stampNow = 1704196800000 \<rparr>"]
  by simp

end
